theory Spec2Isabelle
  imports Complex_Main
begin

section \<open>Strings\<close>

text \<open>
  JavaScript strings are sequences of code units. They are modelled by \<^typ>\<open>string\<close>,
  whose characters are the code units below 256 (ASCII and Latin-1); the delimiters and
  keywords of the program are all ASCII. The string methods the program calls are
  written out on that range.
\<close>

fun startsWith :: "string \<Rightarrow> string \<Rightarrow> bool" where
  "startsWith s [] = True"
| "startsWith [] (p # ps) = False"
| "startsWith (c # cs) (p # ps) = (c = p \<and> startsWith cs ps)"

text \<open>\<^verbatim>\<open>String.prototype.includes\<close>: the argument occurs as a contiguous part.\<close>

fun includes_str :: "string \<Rightarrow> string \<Rightarrow> bool" where
  "includes_str [] sub = (sub = [])"
| "includes_str (c # cs) sub = (startsWith (c # cs) sub \<or> includes_str cs sub)"

text \<open>
  \<^verbatim>\<open>String.prototype.toLowerCase\<close> on code units below 256: the letters A to Z and
  the Latin-1 capitals (0xC0 to 0xDE, the multiplication sign 0xD7 apart) move up by 32.
\<close>

definition lowerChar :: "char \<Rightarrow> char" where
  "lowerChar c =
     (let n = (of_char c :: nat)
      in if (65 \<le> n \<and> n \<le> 90) \<or> (192 \<le> n \<and> n \<le> 222 \<and> n \<noteq> 215)
         then char_of (n + 32) else c)"

definition toLowerCase :: "string \<Rightarrow> string" where
  "toLowerCase s = map lowerChar s"

text \<open>
  \<^verbatim>\<open>String.prototype.trim\<close>: white space and line terminators are removed from both
  ends. Below 256 these are TAB, LF, VT, FF, CR, SPACE and NBSP.
\<close>

definition isWhiteSpace :: "char \<Rightarrow> bool" where
  "isWhiteSpace c =
     (c \<in> set [CHR 0x09, CHR 0x0A, CHR 0x0B, CHR 0x0C, CHR 0x0D, CHR 0x20, CHR 0xA0])"

definition trim :: "string \<Rightarrow> string" where
  "trim s = rev (dropWhile isWhiteSpace (rev (dropWhile isWhiteSpace s)))"

section \<open>Data model of \<^verbatim>\<open>chat.ts\<close>\<close>

datatype sender = User | Assistant

fun senderName :: "sender \<Rightarrow> string" where
  "senderName User = ''user''"
| "senderName Assistant = ''assistant''"

record Message =
  sender :: sender
  msg_text :: string

text \<open>
  What the program can throw: the \<^verbatim>\<open>Error\<close> it builds from a response that is not
  200 (its message is made of the status text and the status, kept here as the two
  parts), the \<^verbatim>\<open>TypeError\<close> of reading a property of \<^verbatim>\<open>undefined\<close>, and whatever
  the promise of a callback or of a file read rejects with.
\<close>

datatype error =
    ApiError string int
  | TypeError
  | Rejected string

text \<open>The part of an HTTP response the program reads: status, status text, and the
  optional \<^verbatim>\<open>text\<close> of each entry of \<^verbatim>\<open>data.choices\<close>.\<close>

record response =
  status :: int
  statusText :: string
  choices :: "string option list"

text \<open>
  The options of one call: the three generation parameters that \<^verbatim>\<open>ask\<close> has defaults
  for, each present or left out. Options beyond these are handed on unchanged and play
  no part here.
\<close>

record CompletionOpts =
  opts_max_tokens :: "int option"
  opts_temperature :: "real option"
  opts_top_p :: "real option"

record CreateCompletionRequest =
  req_max_tokens :: "int option"
  req_temperature :: "real option"
  req_top_p :: "real option"
  req_prompt :: string
  req_model :: "string option"
  req_stop :: "string list"

record RequestConfig =
  header_api_key :: "string option"
  param_api_version :: string

text \<open>The calls that leave the object, in the order they are made.\<close>

datatype call =
    CreateCompletion CreateCompletionRequest RequestConfig
  | Enrich string

record ChatConf =
  conf_url :: string
  conf_model :: string
  conf_apiKey :: string
  conf_role :: "string option"
  conf_apiVer :: "string option"
  conf_memory :: "int option"
  conf_enrich :: "(string \<Rightarrow> error + string) option"

text \<open>
  The fields of a \<^verbatim>\<open>Chat\<close> object. \<^verbatim>\<open>model\<close> and \<^verbatim>\<open>apiKey\<close> stay
  \<^verbatim>\<open>undefined\<close> (\<open>None\<close>) when the configuration gives an empty string; \<open>ai\<close> is the
  base path the API client was created with; \<open>cache\<close> is the NodeCache, which hands out
  and stores copies, so a plain map from scope to message list. The expiry of entries
  after thirty minutes is a matter of real time and is not part of the model. The
  memory size, a JavaScript number that counts messages, is an integer; it can be
  negative, since the constructor takes any number that is not zero.
\<close>

record Chat =
  role :: string
  apiVer :: string
  memory :: int
  model :: "string option"
  apiKey :: "string option"
  ai :: string
  cache :: "string \<rightharpoonup> Message list"
  enrich :: "(string \<Rightarrow> error + string) option"

text \<open>
  What one run of \<^verbatim>\<open>ask\<close> leaves behind: the calls it made, the prompt it assembled
  (the local \<^verbatim>\<open>prompt\<close>, \<open>None\<close> when \<^verbatim>\<open>buildPrompt\<close> threw), what it returned or
  threw, and the object afterwards.
\<close>

record AskRun =
  calls :: "call list"
  assembled :: "string option"
  result :: "error + string"
  chat :: Chat

section \<open>The operations\<close>

definition Chat_constructor :: "ChatConf \<Rightarrow> Chat" where
  "Chat_constructor conf =
     (let this = \<lparr>role = ''AI assistant'', apiVer = ''2022-12-01'', memory = 10,
                  model = None, apiKey = None, ai = [], cache = Map.empty, enrich = None\<rparr>;
          this = (if conf_model conf \<noteq> [] then this\<lparr>model := Some (conf_model conf)\<rparr> else this);
          this = (if conf_apiKey conf \<noteq> [] then this\<lparr>apiKey := Some (conf_apiKey conf)\<rparr> else this);
          this = (case conf_role conf of
                    Some r \<Rightarrow> if r \<noteq> [] then this\<lparr>role := r\<rparr> else this
                  | None \<Rightarrow> this);
          this = (case conf_memory conf of
                    Some m \<Rightarrow> if m \<noteq> 0 then this\<lparr>memory := m\<rparr> else this
                  | None \<Rightarrow> this);
          this = (case conf_apiVer conf of
                    Some v \<Rightarrow> if v \<noteq> [] then this\<lparr>apiVer := v\<rparr> else this
                  | None \<Rightarrow> this);
          this = (case conf_enrich conf of
                    Some f \<Rightarrow> this\<lparr>enrich := Some f\<rparr>
                  | None \<Rightarrow> this);
          basePath = conf_url conf @ ''/openai/deployments/'' @
                     (case model this of None \<Rightarrow> ''undefined'' | Some m \<Rightarrow> m)
      in this\<lparr>ai := basePath, cache := Map.empty\<rparr>)"

text \<open>\<^verbatim>\<open>this.cache.get(scope) || []\<close>\<close>

definition history :: "Chat \<Rightarrow> string \<Rightarrow> Message list" where
  "history this scope = (case cache this scope of None \<Rightarrow> [] | Some ms \<Rightarrow> ms)"

text \<open>\<^verbatim>\<open>setMessage\<close> returns the current messages; the updated object is returned with
  them.\<close>

definition setMessage :: "Chat \<Rightarrow> string \<Rightarrow> sender \<Rightarrow> string \<Rightarrow> Message list \<times> Chat" where
  "setMessage this scope sndr text =
     (let message = \<lparr>sender = sndr, msg_text = text\<rparr>
      in if scope = [] then ([message], this)
         else
           (let messages = history this scope;
                messages = messages @ [message];
                messages = (if int (length messages) > memory this then tl messages
                            else messages)
            in (messages, this\<lparr>cache := (cache this)(scope \<mapsto> messages)\<rparr>)))"

definition clientOpts :: "Chat \<Rightarrow> RequestConfig" where
  "clientOpts this = \<lparr>header_api_key = apiKey this, param_api_version = apiVer this\<rparr>"

text \<open>
  \<^verbatim>\<open>extractSearchQuery\<close>, given the response \<open>res\<close> that the remote call comes back
  with. Reading \<^verbatim>\<open>choices[0].text\<close> with no first choice is a \<^verbatim>\<open>TypeError\<close>.
\<close>

definition extractSearchQuery :: "Chat \<Rightarrow> response \<Rightarrow> string \<Rightarrow> call list \<times> (error + string)" where
  "extractSearchQuery this res text =
     ([CreateCompletion
         \<lparr>req_max_tokens = Some 50, req_temperature = Some (2 / 10), req_top_p = None,
          req_prompt =
            ''<|im_start|>system\<newline>Search assistant\<newline><|im_end|>\<newline>'' @
            ''<|im_start|>user\<newline>Extract search query from:\<newline>'' @ text @
            ''\<newline><|im_end|>\<newline>'' @
            ''<|im_start|>assistant\<newline>'',
          req_model = model this, req_stop = [''<|im_end|>'']\<rparr>
         (clientOpts this)],
      if status res \<noteq> 200 then Inl (ApiError (statusText res) (status res))
      else
        (case choices res of
           [] \<Rightarrow> Inl TypeError
         | ch # _ \<Rightarrow>
             (let answer = (case ch of None \<Rightarrow> [] | Some t \<Rightarrow> t)
              in if includes_str answer ''I'm sorry, but'' \<or>
                    includes_str answer ''is not a valid search query''
                 then Inr [] else Inr answer)))"

text \<open>
  \<^verbatim>\<open>buildPrompt\<close>. Reading \<^verbatim>\<open>.text\<close> of the last message of an empty list is a
  \<^verbatim>\<open>TypeError\<close>. The callback is awaited with no handler, so its failure is the
  failure of \<^verbatim>\<open>buildPrompt\<close>. The statement \<^verbatim>\<open>prompt + `\n<|im_end|>`;\<close> computes a
  string and drops it: it is the binding \<open>dropped\<close>, which nothing reads.
\<close>

definition buildPrompt :: "Chat \<Rightarrow> response \<Rightarrow> Message list \<Rightarrow> call list \<times> (error + string)" where
  "buildPrompt this qres messages =
     (case messages of
        [] \<Rightarrow> ([], Inl TypeError)
      | _ # _ \<Rightarrow>
          (let text = msg_text (last messages)
           in case extractSearchQuery this qres text of
                (cs, Inl e) \<Rightarrow> (cs, Inl e)
              | (cs, Inr searchQuery) \<Rightarrow>
                  (let (cs, facts) =
                         (case enrich this of
                            Some f \<Rightarrow>
                              (let arg = (if searchQuery \<noteq> [] then searchQuery else text)
                               in (cs @ [Enrich arg], f arg))
                          | None \<Rightarrow> (cs, Inr []))
                   in case facts of
                        Inl e \<Rightarrow> (cs, Inl e)
                      | Inr facts \<Rightarrow>
                          (let prompt = ''<|im_start|>system\<newline>'' @ role this;
                               prompt = (if facts \<noteq> []
                                         then prompt @ ''\<newline>\<newline>Facts:\<newline>'' @ trim facts
                                         else prompt);
                               dropped = prompt @ ''\<newline><|im_end|>'';
                               prompt = foldl (\<lambda>prompt message.
                                           prompt @ ''\<newline><|im_start|>'' @ senderName (sender message) @
                                           ''\<newline>'' @ msg_text message @ ''\<newline><|im_end|>'')
                                         prompt messages;
                               prompt = prompt @ ''\<newline><|im_start|>assistant\<newline>''
                           in (cs, Inr prompt)))))"

text \<open>
  \<^verbatim>\<open>ask\<close>, given the responses \<open>qres\<close> and \<open>res\<close> that the two remote calls come back
  with. \<open>dlg = None\<close> is the omitted argument, which defaults to the empty scope; the
  fields of \<open>opts\<close> that are \<open>None\<close> are the ones the caller left out.
\<close>

definition ask :: "Chat \<Rightarrow> string \<Rightarrow> string option \<Rightarrow> CompletionOpts \<Rightarrow> response \<Rightarrow> response \<Rightarrow> AskRun" where
  "ask this text dlg opts qres res =
     (let dlg = (case dlg of None \<Rightarrow> [] | Some d \<Rightarrow> d);
          (messages, this) = setMessage this dlg User text
      in case buildPrompt this qres messages of
           (cs, Inl e) \<Rightarrow> \<lparr>calls = cs, assembled = None, result = Inl e, chat = this\<rparr>
         | (cs, Inr prompt) \<Rightarrow>
             (let cs = cs @
                    [CreateCompletion
                       \<lparr>req_max_tokens =
                          (case opts_max_tokens opts of None \<Rightarrow> Some 500 | Some v \<Rightarrow> Some v),
                        req_temperature =
                          (case opts_temperature opts of None \<Rightarrow> Some (7 / 10) | Some v \<Rightarrow> Some v),
                        req_top_p =
                          (case opts_top_p opts of None \<Rightarrow> Some (95 / 100) | Some v \<Rightarrow> Some v),
                        req_prompt = prompt, req_model = model this,
                        req_stop = [''<|im_end|>'']\<rparr>
                       (clientOpts this)]
              in if status res \<noteq> 200
                 then \<lparr>calls = cs, assembled = Some prompt,
                       result = Inl (ApiError (statusText res) (status res)), chat = this\<rparr>
                 else
                   (case choices res of
                      [] \<Rightarrow> \<lparr>calls = cs, assembled = Some prompt, result = Inl TypeError, chat = this\<rparr>
                    | ch # _ \<Rightarrow>
                        (let answer = (case ch of None \<Rightarrow> [] | Some t \<Rightarrow> t);
                             this = (if answer \<noteq> [] then snd (setMessage this dlg Assistant answer)
                                     else this)
                         in \<lparr>calls = cs, assembled = Some prompt, result = Inr answer, chat = this\<rparr>))))"

section \<open>The sample enrichment callback of \<^verbatim>\<open>facts.ts\<close>\<close>

text \<open>
  \<^verbatim>\<open>getFacts\<close>, given the outcome \<open>kb\<close> of reading the knowledge-base file
  \<^verbatim>\<open>./kb/marseoni.txt\<close>: its contents, or the error the read rejects with. The line
  it writes to the console is not modelled.
\<close>

definition getFacts :: "error + string \<Rightarrow> string \<Rightarrow> error + string" where
  "getFacts kb text =
     (let t = toLowerCase text
      in if includes_str t ''food'' \<or> includes_str t ''eat'' \<or> includes_str t ''cuisine''
         then kb else Inr [])"

section \<open>Sequences of requests\<close>

text \<open>
  The server calls \<^verbatim>\<open>ai.ask(text, dlg)\<close> once for each request it receives and goes on
  after a request that failed. A request is the arguments of the call together with the
  two responses the remote service gives to it.
\<close>

record AskCall =
  ask_text :: string
  ask_dlg :: "string option"
  ask_opts :: CompletionOpts
  ask_qres :: response
  ask_res :: response

definition askCall :: "Chat \<Rightarrow> AskCall \<Rightarrow> AskRun" where
  "askCall this a = ask this (ask_text a) (ask_dlg a) (ask_opts a) (ask_qres a) (ask_res a)"

fun asks :: "Chat \<Rightarrow> AskCall list \<Rightarrow> Chat" where
  "asks this [] = this"
| "asks this (a # as) = asks (chat (askCall this a)) as"

section \<open>Notions of the specification\<close>

text \<open>The last \<open>n\<close> entries of a list, oldest first.\<close>

definition lastN :: "nat \<Rightarrow> 'a list \<Rightarrow> 'a list" where
  "lastN n xs = drop (length xs - n) xs"

text \<open>The scope a call runs with: an omitted argument is the empty scope.\<close>

definition scopeOf :: "string option \<Rightarrow> string" where
  "scopeOf dlg = (case dlg of None \<Rightarrow> [] | Some d \<Rightarrow> d)"

text \<open>
  The messages one request hands to the history of \<open>scope\<close>, in order: the question,
  and the answer when the call returned one that is not empty.
\<close>

definition offered :: "Chat \<Rightarrow> string \<Rightarrow> AskCall \<Rightarrow> Message list" where
  "offered this scope a =
     (if scopeOf (ask_dlg a) = scope
      then \<lparr>sender = User, msg_text = ask_text a\<rparr> #
           (case result (askCall this a) of
              Inr answer \<Rightarrow>
                if answer \<noteq> [] then [\<lparr>sender = Assistant, msg_text = answer\<rparr>] else []
            | Inl e \<Rightarrow> [])
      else [])"

fun offeredAll :: "Chat \<Rightarrow> string \<Rightarrow> AskCall list \<Rightarrow> Message list" where
  "offeredAll this scope [] = []"
| "offeredAll this scope (a # as) =
     offered this scope a @ offeredAll (chat (askCall this a)) scope as"

text \<open>The parts of a prompt: the system segment, one turn, the continuation marker.\<close>

definition systemSegment :: "string \<Rightarrow> string \<Rightarrow> string" where
  "systemSegment r facts =
     ''<|im_start|>system\<newline>'' @ r @
     (if facts \<noteq> [] then ''\<newline>\<newline>Facts:\<newline>'' @ trim facts else [])"

definition turn :: "sender \<Rightarrow> string \<Rightarrow> string" where
  "turn s t = ''\<newline><|im_start|>'' @ senderName s @ ''\<newline>'' @ t @ ''\<newline><|im_end|>''"

definition turns :: "Message list \<Rightarrow> string" where
  "turns ms = concat (map (\<lambda>m. turn (sender m) (msg_text m)) ms)"

definition continuation :: string where
  "continuation = ''\<newline><|im_start|>assistant\<newline>''"

text \<open>A text contains a word case-insensitively: some contiguous part of it is the
  word up to the case of its letters.\<close>

definition containsIgnoringCase :: "string \<Rightarrow> string \<Rightarrow> bool" where
  "containsIgnoringCase text word =
     (\<exists>us w vs. text = us @ w @ vs \<and> toLowerCase w = toLowerCase word)"

section \<open>Sample configurations and responses\<close>

definition sampleConf :: "int option \<Rightarrow> (string \<Rightarrow> error + string) option \<Rightarrow> ChatConf" where
  "sampleConf m f =
     \<lparr>conf_url = ''https://contoso.openai.azure.com'', conf_model = ''gpt-35-turbo'',
      conf_apiKey = ''key'', conf_role = None, conf_apiVer = None, conf_memory = m,
      conf_enrich = f\<rparr>"

definition blankConf :: ChatConf where
  "blankConf =
     \<lparr>conf_url = ''https://contoso.openai.azure.com'', conf_model = ''gpt-35-turbo'',
      conf_apiKey = ''key'', conf_role = Some [], conf_apiVer = Some [], conf_memory = Some 0,
      conf_enrich = None\<rparr>"

definition reply :: "int \<Rightarrow> string \<Rightarrow> response" where
  "reply st t = \<lparr>status = st, statusText = (if st = 200 then ''OK'' else ''Error''),
                 choices = [Some t]\<rparr>"

definition noOpts :: CompletionOpts where
  "noOpts = \<lparr>opts_max_tokens = None, opts_temperature = None, opts_top_p = None\<rparr>"

definition request :: "string \<Rightarrow> string option \<Rightarrow> string \<Rightarrow> AskCall" where
  "request t d answer =
     \<lparr>ask_text = t, ask_dlg = d, ask_opts = noOpts, ask_qres = reply 200 t,
      ask_res = reply 200 answer\<rparr>"

definition unavailable :: "string \<Rightarrow> error + string" where
  "unavailable q = Inl (Rejected ''knowledge base unavailable'')"

section \<open>Facts about the string methods\<close>

lemma startsWith_iff: "startsWith s p \<longleftrightarrow> (\<exists>vs. s = p @ vs)"
  by (induction s p rule: startsWith.induct) auto

lemma includes_str_iff: "includes_str s sub \<longleftrightarrow> (\<exists>us vs. s = us @ sub @ vs)"
proof (induction s)
  case Nil
  then show ?case by auto
next
  case (Cons c cs)
  show ?case
  proof
    assume "includes_str (c # cs) sub"
    then consider "startsWith (c # cs) sub" | "includes_str cs sub" by auto
    then show "\<exists>us vs. c # cs = us @ sub @ vs"
    proof cases
      case 1
      then obtain vs where "c # cs = sub @ vs" by (auto simp: startsWith_iff)
      then have "c # cs = [] @ sub @ vs" by simp
      then show ?thesis by blast
    next
      case 2
      then obtain us vs where "cs = us @ sub @ vs" using Cons.IH by auto
      then have "c # cs = (c # us) @ sub @ vs" by simp
      then show ?thesis by blast
    qed
  next
    assume "\<exists>us vs. c # cs = us @ sub @ vs"
    then obtain us vs where e: "c # cs = us @ sub @ vs" by auto
    show "includes_str (c # cs) sub"
    proof (cases us)
      case Nil
      with e have "startsWith (c # cs) sub" by (auto simp: startsWith_iff)
      then show ?thesis by simp
    next
      case (Cons u us')
      with e have "cs = us' @ sub @ vs" by simp
      then have "includes_str cs sub" using Cons.IH by auto
      then show ?thesis by simp
    qed
  qed
qed

lemma toLowerCase_append: "toLowerCase (xs @ ys) = toLowerCase xs @ toLowerCase ys"
  by (simp add: toLowerCase_def)

lemma map_eq_append_split:
  assumes "map f xs = ys @ zs"
  shows "\<exists>as bs. xs = as @ bs \<and> map f as = ys \<and> map f bs = zs"
proof -
  have "take (length ys) (map f xs) = ys" "drop (length ys) (map f xs) = zs"
    by (simp_all add: assms)
  then have a: "map f (take (length ys) xs) = ys" and b: "map f (drop (length ys) xs) = zs"
    by (simp_all only: take_map drop_map)
  have "xs = take (length ys) xs @ drop (length ys) xs" by simp
  with a b show ?thesis by blast
qed

lemma includes_lower_iff:
  "includes_str (toLowerCase t) (toLowerCase word) \<longleftrightarrow> containsIgnoringCase t word"
proof
  assume "includes_str (toLowerCase t) (toLowerCase word)"
  then have "\<exists>us vs. toLowerCase t = us @ toLowerCase word @ vs"
    by (simp only: includes_str_iff)
  then obtain us vs where "map lowerChar t = us @ toLowerCase word @ vs"
    unfolding toLowerCase_def by blast
  then obtain a r where ar: "t = a @ r" "map lowerChar r = map lowerChar word @ vs"
    unfolding toLowerCase_def using map_eq_append_split by blast
  from ar(2) obtain b c where bc: "r = b @ c" "map lowerChar b = map lowerChar word"
    using map_eq_append_split by blast
  from ar(1) bc have "t = a @ b @ c \<and> toLowerCase b = toLowerCase word"
    by (simp add: toLowerCase_def)
  then show "containsIgnoringCase t word"
    unfolding containsIgnoringCase_def by blast
next
  assume "containsIgnoringCase t word"
  then obtain us w vs where "t = us @ w @ vs" "toLowerCase w = toLowerCase word"
    unfolding containsIgnoringCase_def by blast
  then have "toLowerCase t = toLowerCase us @ toLowerCase word @ toLowerCase vs"
    by (simp add: toLowerCase_append)
  then have "\<exists>us vs. toLowerCase t = us @ toLowerCase word @ vs" by blast
  then show "includes_str (toLowerCase t) (toLowerCase word)"
    by (simp only: includes_str_iff)
qed

lemma lower_food: "toLowerCase ''food'' = ''food''" "toLowerCase ''eat'' = ''eat''" "toLowerCase ''cuisine'' = ''cuisine''"
  by (simp_all add: toLowerCase_def lowerChar_def)


lemma getFacts_cases:
  "getFacts kb t =
     (if containsIgnoringCase t ''food'' \<or> containsIgnoringCase t ''eat'' \<or>
         containsIgnoringCase t ''cuisine''
      then kb else Inr [])"
  using includes_lower_iff [of _ "''food''"] includes_lower_iff [of _ "''eat''"]
    includes_lower_iff [of _ "''cuisine''"]
  by (simp add: getFacts_def lower_food Let_def)

text \<open>
  Claim C9. For every input text and every outcome \<open>kb\<close> of reading the knowledge-base
  file, \<^verbatim>\<open>getFacts\<close> returns that outcome when the text contains "food", "eat" or
  "cuisine" case-insensitively, and the empty string for every other text. When the
  file is not empty the two cases are told apart by the result, so that the file's
  contents are returned if and only if the text contains one of the three words.
\<close>

theorem getFacts_keywords:
  "(containsIgnoringCase t ''food'' \<or> containsIgnoringCase t ''eat'' \<or>
      containsIgnoringCase t ''cuisine'' \<longrightarrow> getFacts kb t = kb) \<and>
   (\<not> (containsIgnoringCase t ''food'' \<or> containsIgnoringCase t ''eat'' \<or>
      containsIgnoringCase t ''cuisine'') \<longrightarrow> getFacts kb t = Inr []) \<and>
   (kb \<noteq> Inr [] \<longrightarrow>
      (getFacts kb t = kb) =
      (containsIgnoringCase t ''food'' \<or> containsIgnoringCase t ''eat'' \<or>
       containsIgnoringCase t ''cuisine''))"
  by (auto simp: getFacts_cases)

lemma lower_samples:
  "toLowerCase ''What FOOD?'' = ''what food?''"
  "toLowerCase ''FOOD'' = ''food''"
  "toLowerCase ''Hello'' = ''hello''"
  by (simp_all add: toLowerCase_def lowerChar_def char_of_def bit_Suc_0_iff)

theorem getFacts_keywords_witness:
  "containsIgnoringCase ''What FOOD?'' ''food'' \<and>
   getFacts (Inr ''Marseoni facts'') ''What FOOD?'' = Inr ''Marseoni facts'' \<and>
   \<not> (containsIgnoringCase ''Hello'' ''food'' \<or> containsIgnoringCase ''Hello'' ''eat'' \<or>
      containsIgnoringCase ''Hello'' ''cuisine'') \<and>
   getFacts (Inr ''Marseoni facts'') ''Hello'' = Inr []"
proof -
  have "''What FOOD?'' = ''What '' @ ''FOOD'' @ ''?''" by simp
  then have yes: "containsIgnoringCase ''What FOOD?'' ''food''"
    unfolding containsIgnoringCase_def using lower_samples(2) lower_food(1) by metis
  have no: "\<not> (containsIgnoringCase ''Hello'' ''food'' \<or> containsIgnoringCase ''Hello'' ''eat'' \<or>
      containsIgnoringCase ''Hello'' ''cuisine'')"
    using includes_lower_iff [of "''Hello''" "''food''"] includes_lower_iff [of "''Hello''" "''eat''"]
      includes_lower_iff [of "''Hello''" "''cuisine''"]
    by (simp add: lower_samples lower_food)
  from yes no
    getFacts_keywords [of "''What FOOD?''" "Inr ''Marseoni facts''"]
    getFacts_keywords [of "''Hello''" "Inr ''Marseoni facts''"]
  show ?thesis by blast
qed

text \<open>
  Claim C10. A configuration whose memory is 0 or omitted keeps the default window of 10,
  any other number is taken as it is, so the memory of a constructed object is never 0;
  an omitted or empty role keeps \<^verbatim>\<open>AI assistant\<close> and an omitted or empty API version
  keeps \<^verbatim>\<open>2022-12-01\<close>.
\<close>

theorem constructor_defaults:
  "(conf_memory conf = None \<or> conf_memory conf = Some 0 \<longrightarrow> memory (Chat_constructor conf) = 10) \<and>
   (\<forall>m. conf_memory conf = Some m \<and> m \<noteq> 0 \<longrightarrow> memory (Chat_constructor conf) = m) \<and>
   memory (Chat_constructor conf) \<noteq> 0 \<and>
   (conf_role conf = None \<or> conf_role conf = Some [] \<longrightarrow>
      role (Chat_constructor conf) = ''AI assistant'') \<and>
   (\<forall>r. conf_role conf = Some r \<and> r \<noteq> [] \<longrightarrow> role (Chat_constructor conf) = r) \<and>
   (conf_apiVer conf = None \<or> conf_apiVer conf = Some [] \<longrightarrow>
      apiVer (Chat_constructor conf) = ''2022-12-01'') \<and>
   (\<forall>v. conf_apiVer conf = Some v \<and> v \<noteq> [] \<longrightarrow> apiVer (Chat_constructor conf) = v)"
  by (cases "conf_memory conf"; cases "conf_role conf"; cases "conf_apiVer conf";
      cases "conf_enrich conf"; simp add: Chat_constructor_def Let_def)

theorem constructor_defaults_witness:
  "conf_memory blankConf = Some 0 \<and> memory (Chat_constructor blankConf) = 10 \<and>
   conf_role blankConf = Some [] \<and> role (Chat_constructor blankConf) = ''AI assistant'' \<and>
   conf_apiVer blankConf = Some [] \<and> apiVer (Chat_constructor blankConf) = ''2022-12-01'' \<and>
   conf_memory (sampleConf (Some 5) None) = Some 5 \<and>
   memory (Chat_constructor (sampleConf (Some 5) None)) = 5 \<and>
   conf_memory (sampleConf None None) = None \<and>
   memory (Chat_constructor (sampleConf None None)) = 10"
  using constructor_defaults [of blankConf] constructor_defaults [of "sampleConf (Some 5) None"]
    constructor_defaults [of "sampleConf None None"]
  by (simp add: blankConf_def sampleConf_def)

section \<open>Facts about the history\<close>

lemma setMessage_empty: "setMessage this [] s t = ([\<lparr>sender = s, msg_text = t\<rparr>], this)"
  by (simp add: setMessage_def)

lemma setMessage_cache:
  "scope \<noteq> [] \<Longrightarrow>
   snd (setMessage this scope s t) =
     this\<lparr>cache := (cache this)(scope \<mapsto> fst (setMessage this scope s t))\<rparr>"
  by (simp add: setMessage_def Let_def)

lemma fst_setMessage:
  "scope \<noteq> [] \<Longrightarrow>
   fst (setMessage this scope s t) =
     (if int (length (history this scope @ [\<lparr>sender = s, msg_text = t\<rparr>])) > memory this
      then tl (history this scope @ [\<lparr>sender = s, msg_text = t\<rparr>])
      else history this scope @ [\<lparr>sender = s, msg_text = t\<rparr>])"
  by (simp add: setMessage_def Let_def)

lemma setMessage_frame:
  "\<exists>k. snd (setMessage this scope s t) = this\<lparr>cache := k\<rparr>"
proof (cases "scope = []")
  case True
  then have "snd (setMessage this scope s t) = this\<lparr>cache := cache this\<rparr>"
    by (simp add: setMessage_empty)
  then show ?thesis by blast
next
  case False
  then show ?thesis using setMessage_cache by blast
qed

lemma setMessage_memory: "memory (snd (setMessage this scope s t)) = memory this"
  using setMessage_frame [of this scope s t] by auto

lemma history_setMessage_same:
  "scope \<noteq> [] \<Longrightarrow>
   history (snd (setMessage this scope s t)) scope = fst (setMessage this scope s t)"
  by (simp add: setMessage_cache history_def)

lemma history_setMessage_other:
  "scope' \<noteq> scope \<Longrightarrow> history (snd (setMessage this scope s t)) scope' = history this scope'"
  by (cases "scope = []") (simp_all add: setMessage_empty setMessage_cache history_def)

lemma lastN_short: "length xs \<le> n \<Longrightarrow> lastN n xs = xs"
  by (simp add: lastN_def)

lemma length_lastN: "length (lastN n xs) = min n (length xs)"
  by (simp add: lastN_def)

lemma lastN_lastN_append: "lastN n (lastN n xs @ ys) = lastN n (xs @ ys)"
proof (cases "length xs \<le> n")
  case True
  then show ?thesis by (simp add: lastN_short)
next
  case False
  then have "length xs - n + n = length xs" by simp
  then show ?thesis using False by (simp add: lastN_def add.commute)
qed

lemma push_shift_lastN:
  assumes "length h \<le> n"
  shows "(if length (h @ [x]) > n then tl (h @ [x]) else h @ [x]) = lastN n (h @ [x])"
proof (cases "length h = n")
  case True
  have "drop (Suc 0) (h @ [x]) = tl (h @ [x])" by (simp only: drop_Suc drop_0)
  moreover have "length (h @ [x]) - n = Suc 0" using True by simp
  ultimately have "lastN n (h @ [x]) = tl (h @ [x])" by (simp only: lastN_def)
  then show ?thesis using True by simp
next
  case False
  with assms have "length (h @ [x]) \<le> n" by simp
  then show ?thesis by (simp add: lastN_short del: length_append)
qed

lemma fst_setMessage_lastN:
  assumes "scope \<noteq> []" "0 \<le> memory this" "int (length (history this scope)) \<le> memory this"
  shows "fst (setMessage this scope s t) =
         lastN (nat (memory this)) (history this scope @ [\<lparr>sender = s, msg_text = t\<rparr>])"
proof -
  define l where "l = history this scope @ [\<lparr>sender = s, msg_text = t\<rparr>]"
  have le: "length (history this scope) \<le> nat (memory this)" using assms by simp
  have c: "(int (length l) > memory this) = (length l > nat (memory this))"
    using assms(2) by auto
  have "fst (setMessage this scope s t) = (if int (length l) > memory this then tl l else l)"
    unfolding l_def using assms(1) by (rule fst_setMessage)
  also have "\<dots> = (if length l > nat (memory this) then tl l else l)"
    by (simp only: c)
  also have "\<dots> = lastN (nat (memory this)) l"
    unfolding l_def using le by (rule push_shift_lastN)
  finally show ?thesis unfolding l_def .
qed

lemma pushed_last:
  assumes "fst (setMessage this scope s t) \<noteq> []"
  shows "last (fst (setMessage this scope s t)) = \<lparr>sender = s, msg_text = t\<rparr>"
proof (cases "scope = []")
  case True
  then show ?thesis by (simp add: setMessage_empty)
next
  case False
  show ?thesis
  proof (cases "int (length (history this scope @ [\<lparr>sender = s, msg_text = t\<rparr>])) > memory this")
    case True
    then have f: "fst (setMessage this scope s t) = tl (history this scope @ [\<lparr>sender = s, msg_text = t\<rparr>])"
      using False by (simp add: fst_setMessage)
    with assms have "tl (history this scope @ [\<lparr>sender = s, msg_text = t\<rparr>]) \<noteq> []" by simp
    then have "last (tl (history this scope @ [\<lparr>sender = s, msg_text = t\<rparr>])) =
               last (history this scope @ [\<lparr>sender = s, msg_text = t\<rparr>])"
      by (intro last_tl) simp
    then show ?thesis by (simp add: f)
  next
    case c: False
    then have "fst (setMessage this scope s t) = history this scope @ [\<lparr>sender = s, msg_text = t\<rparr>]"
      using False by (simp add: fst_setMessage)
    then show ?thesis by simp
  qed
qed

lemma pushed_nonempty:
  assumes "0 < memory this"
  shows "fst (setMessage this scope s t) \<noteq> []"
proof (cases "scope = []")
  case True
  then show ?thesis by (simp add: setMessage_empty)
next
  case False
  then show ?thesis using assms
    by (cases "history this scope") (simp_all add: fst_setMessage)
qed

lemma pushed_after_nonempty:
  assumes "scope \<noteq> []" "history this scope \<noteq> []"
  shows "fst (setMessage this scope s t) \<noteq> []"
  using assms by (cases "history this scope") (simp_all add: fst_setMessage)

section \<open>Facts about prompt assembly\<close>

lemma foldl_turns:
  "foldl (\<lambda>prompt message.
            prompt @ ''\<newline><|im_start|>'' @ senderName (sender message) @
            ''\<newline>'' @ msg_text message @ ''\<newline><|im_end|>'') p ms =
   p @ turns ms"
  by (induction ms arbitrary: p) (simp_all add: turns_def turn_def)

lemma extractSearchQuery_calls:
  "fst (extractSearchQuery this res t) =
   [CreateCompletion
      \<lparr>req_max_tokens = Some 50, req_temperature = Some (2 / 10), req_top_p = None,
       req_prompt =
         ''<|im_start|>system\<newline>Search assistant\<newline><|im_end|>\<newline>'' @
         ''<|im_start|>user\<newline>Extract search query from:\<newline>'' @ t @
         ''\<newline><|im_end|>\<newline>'' @
         ''<|im_start|>assistant\<newline>'',
       req_model = model this, req_stop = [''<|im_end|>'']\<rparr>
      (clientOpts this)]"
  by (simp add: extractSearchQuery_def)

lemma extractSearchQuery_cache:
  "extractSearchQuery (this\<lparr>cache := k\<rparr>) res t = extractSearchQuery this res t"
  by (simp add: extractSearchQuery_def clientOpts_def)

lemma prompt_text:
  "(let prompt = ''<|im_start|>system\<newline>'' @ r;
        prompt = (if facts \<noteq> []
                  then prompt @ ''\<newline>\<newline>Facts:\<newline>'' @ trim facts
                  else prompt);
        dropped = prompt @ ''\<newline><|im_end|>'';
        prompt = foldl (\<lambda>prompt message.
                    prompt @ ''\<newline><|im_start|>'' @ senderName (sender message) @
                    ''\<newline>'' @ msg_text message @ ''\<newline><|im_end|>'')
                  prompt ms;
        prompt = prompt @ ''\<newline><|im_start|>assistant\<newline>''
    in (cs, Inr prompt)) =
   (cs, Inr (systemSegment r facts @ turns ms @ continuation))"
  unfolding Let_def foldl_turns systemSegment_def continuation_def by simp

lemma buildPrompt_alt:
  "buildPrompt this qres ms =
     (case ms of
        [] \<Rightarrow> ([], Inl TypeError)
      | _ # _ \<Rightarrow>
          (let text = msg_text (last ms)
           in case extractSearchQuery this qres text of
                (cs, Inl e) \<Rightarrow> (cs, Inl e)
              | (cs, Inr searchQuery) \<Rightarrow>
                  (let (cs, facts) =
                         (case enrich this of
                            Some f \<Rightarrow>
                              (let arg = (if searchQuery \<noteq> [] then searchQuery else text)
                               in (cs @ [Enrich arg], f arg))
                          | None \<Rightarrow> (cs, Inr []))
                   in case facts of
                        Inl e \<Rightarrow> (cs, Inl e)
                      | Inr facts \<Rightarrow>
                          (cs, Inr (systemSegment (role this) facts @ turns ms @ continuation)))))"
  unfolding buildPrompt_def prompt_text ..

lemma list_case_nonempty: "ms \<noteq> [] \<Longrightarrow> (case ms of [] \<Rightarrow> a | x # xs \<Rightarrow> b) = b"
  by (cases ms) simp_all

lemma buildPrompt_cache:
  "buildPrompt (this\<lparr>cache := k\<rparr>) qres ms = buildPrompt this qres ms"
  by (simp add: buildPrompt_alt extractSearchQuery_cache
      cong: list.case_cong prod.case_cong sum.case_cong if_cong)

lemma buildPrompt_Nil: "buildPrompt this qres [] = ([], Inl TypeError)"
  by (simp add: buildPrompt_def)

lemma buildPrompt_query_failed:
  assumes "ms \<noteq> []" "snd (extractSearchQuery this qres (msg_text (last ms))) = Inl e"
  shows "buildPrompt this qres ms =
         (fst (extractSearchQuery this qres (msg_text (last ms))), Inl e)"
  using assms
  by (cases "extractSearchQuery this qres (msg_text (last ms))")
     (simp add: buildPrompt_alt list_case_nonempty)

lemma buildPrompt_no_enrich:
  assumes "ms \<noteq> []" "snd (extractSearchQuery this qres (msg_text (last ms))) = Inr q"
    "enrich this = None"
  shows "buildPrompt this qres ms =
         (fst (extractSearchQuery this qres (msg_text (last ms))),
          Inr (systemSegment (role this) [] @ turns ms @ continuation))"
  using assms
  by (cases "extractSearchQuery this qres (msg_text (last ms))")
     (simp add: buildPrompt_alt list_case_nonempty)

lemma buildPrompt_enrich:
  assumes "ms \<noteq> []" "snd (extractSearchQuery this qres (msg_text (last ms))) = Inr q"
    "enrich this = Some f"
  shows "buildPrompt this qres ms =
         (fst (extractSearchQuery this qres (msg_text (last ms))) @
            [Enrich (if q \<noteq> [] then q else msg_text (last ms))],
          case f (if q \<noteq> [] then q else msg_text (last ms)) of
            Inl e \<Rightarrow> Inl e
          | Inr facts \<Rightarrow> Inr (systemSegment (role this) facts @ turns ms @ continuation))"
  using assms
  by (cases "extractSearchQuery this qres (msg_text (last ms))";
      cases "f (if q \<noteq> [] then q else msg_text (last ms))")
     (simp_all add: buildPrompt_alt list_case_nonempty Let_def)

section \<open>Facts about ask\<close>

lemma setMessage_buildPrompt:
  "buildPrompt (snd (setMessage this scope s t)) qres ms = buildPrompt this qres ms"
  using setMessage_frame [of this scope s t] by (auto simp: buildPrompt_cache)

lemma setMessage_fields:
  "model (snd (setMessage this scope s t)) = model this"
  "clientOpts (snd (setMessage this scope s t)) = clientOpts this"
  "enrich (snd (setMessage this scope s t)) = enrich this"
  "role (snd (setMessage this scope s t)) = role this"
  using setMessage_frame [of this scope s t] by (auto simp: clientOpts_def)

lemma ask_failed_prompt:
  assumes "buildPrompt this qres (fst (setMessage this (scopeOf dlg) User t)) = (cs, Inl e)"
  shows "ask this t dlg opts qres res =
         \<lparr>calls = cs, assembled = None, result = Inl e,
          chat = snd (setMessage this (scopeOf dlg) User t)\<rparr>"
proof -
  obtain ms this1 where sm: "setMessage this (scopeOf dlg) User t = (ms, this1)"
    by (cases "setMessage this (scopeOf dlg) User t")
  have "buildPrompt this1 qres ms = (cs, Inl e)"
    using assms setMessage_buildPrompt [of this "scopeOf dlg" User t qres ms] sm by simp
  then show ?thesis using sm
    by (simp add: ask_def scopeOf_def)
qed

lemma ask_prompt:
  assumes "buildPrompt this qres (fst (setMessage this (scopeOf dlg) User t)) = (cs, Inr p)"
  shows "ask this t dlg opts qres res =
         \<lparr>calls = cs @
            [CreateCompletion
               \<lparr>req_max_tokens =
                  (case opts_max_tokens opts of None \<Rightarrow> Some 500 | Some v \<Rightarrow> Some v),
                req_temperature =
                  (case opts_temperature opts of None \<Rightarrow> Some (7 / 10) | Some v \<Rightarrow> Some v),
                req_top_p =
                  (case opts_top_p opts of None \<Rightarrow> Some (95 / 100) | Some v \<Rightarrow> Some v),
                req_prompt = p, req_model = model this,
                req_stop = [''<|im_end|>'']\<rparr>
               (clientOpts this)],
          assembled = Some p,
          result =
            (if status res \<noteq> 200 then Inl (ApiError (statusText res) (status res))
             else case choices res of
                    [] \<Rightarrow> Inl TypeError
                  | ch # _ \<Rightarrow> Inr (case ch of None \<Rightarrow> [] | Some a \<Rightarrow> a)),
          chat =
            (if status res \<noteq> 200 then snd (setMessage this (scopeOf dlg) User t)
             else case choices res of
                    [] \<Rightarrow> snd (setMessage this (scopeOf dlg) User t)
                  | ch # _ \<Rightarrow>
                      if (case ch of None \<Rightarrow> [] | Some a \<Rightarrow> a) \<noteq> []
                      then snd (setMessage (snd (setMessage this (scopeOf dlg) User t))
                                  (scopeOf dlg) Assistant (case ch of None \<Rightarrow> [] | Some a \<Rightarrow> a))
                      else snd (setMessage this (scopeOf dlg) User t))\<rparr>"
proof -
  obtain ms this1 where sm: "setMessage this (scopeOf dlg) User t = (ms, this1)"
    by (cases "setMessage this (scopeOf dlg) User t")
  have bp: "buildPrompt this1 qres ms = (cs, Inr p)"
    using assms setMessage_buildPrompt [of this "scopeOf dlg" User t qres ms] sm by simp
  have f: "model this1 = model this" "clientOpts this1 = clientOpts this"
    using setMessage_fields [of this "scopeOf dlg" User t] sm by simp_all
  show ?thesis using sm bp f
    by (cases "choices res") (simp_all add: ask_def scopeOf_def Let_def)
qed

section \<open>Facts about sequences of requests\<close>

lemma ask_chat:
  "chat (ask this t dlg opts qres res) =
     (case result (ask this t dlg opts qres res) of
        Inl e \<Rightarrow> snd (setMessage this (scopeOf dlg) User t)
      | Inr answer \<Rightarrow>
          if answer \<noteq> []
          then snd (setMessage (snd (setMessage this (scopeOf dlg) User t))
                      (scopeOf dlg) Assistant answer)
          else snd (setMessage this (scopeOf dlg) User t))"
proof -
  obtain cs r where bp:
    "buildPrompt this qres (fst (setMessage this (scopeOf dlg) User t)) = (cs, r)"
    by (cases "buildPrompt this qres (fst (setMessage this (scopeOf dlg) User t))")
  show ?thesis
  proof (cases r)
    case (Inl e)
    with bp show ?thesis by (simp add: ask_failed_prompt)
  next
    case (Inr p)
    with bp show ?thesis by (cases "choices res") (simp_all add: ask_prompt)
  qed
qed

lemma ask_memory: "memory (chat (ask this t dlg opts qres res)) = memory this"
  by (simp add: ask_chat setMessage_memory split: sum.split)

lemma history_push:
  assumes "scope \<noteq> []" "0 \<le> memory this" "int (length (history this scope)) \<le> memory this"
  shows "history (snd (setMessage this scope s t)) scope =
         lastN (nat (memory this)) (history this scope @ [\<lparr>sender = s, msg_text = t\<rparr>])"
  using history_setMessage_same [of scope this s t] fst_setMessage_lastN [OF assms, of s t] assms(1)
  by simp

lemma history_push_bound:
  assumes "scope \<noteq> []" "0 \<le> memory this" "int (length (history this scope)) \<le> memory this"
  shows "int (length (history (snd (setMessage this scope s t)) scope)) \<le> memory this"
  using assms by (simp add: history_push length_lastN)

lemma askCall_history:
  assumes "scope \<noteq> []" "0 \<le> memory this" "int (length (history this scope)) \<le> memory this"
  shows "history (chat (askCall this a)) scope =
         lastN (nat (memory this)) (history this scope @ offered this scope a)"
proof (cases "scopeOf (ask_dlg a) = scope")
  case False
  then have "history (chat (askCall this a)) scope = history this scope"
    by (simp add: askCall_def ask_chat history_setMessage_other split: sum.split)
  moreover have "offered this scope a = []" using False by (simp add: offered_def)
  ultimately show ?thesis using assms by (simp add: lastN_short)
next
  case True
  define this1 where "this1 = snd (setMessage this scope User (ask_text a))"
  define u where "u = \<lparr>sender = User, msg_text = ask_text a\<rparr>"
  have h1: "history this1 scope = lastN (nat (memory this)) (history this scope @ [u])"
    unfolding this1_def u_def using assms by (rule history_push)
  have m1: "memory this1 = memory this" by (simp add: this1_def setMessage_memory)
  have b1: "int (length (history this1 scope)) \<le> memory this1"
    unfolding this1_def setMessage_memory using assms by (rule history_push_bound)
  show ?thesis
  proof (cases "result (askCall this a)")
    case (Inl e)
    then have "chat (askCall this a) = this1"
      using True by (simp add: askCall_def ask_chat this1_def)
    moreover have "offered this scope a = [u]"
      using True Inl by (simp add: offered_def u_def)
    ultimately show ?thesis using h1 by simp
  next
    case (Inr answer)
    show ?thesis
    proof (cases "answer = []")
      case True
      then have "chat (askCall this a) = this1"
        using \<open>scopeOf (ask_dlg a) = scope\<close> Inr by (simp add: askCall_def ask_chat this1_def)
      moreover have "offered this scope a = [u]"
        using \<open>scopeOf (ask_dlg a) = scope\<close> Inr True by (simp add: offered_def u_def)
      ultimately show ?thesis using h1 by simp
    next
      case False
      then have c: "chat (askCall this a) = snd (setMessage this1 scope Assistant answer)"
        using \<open>scopeOf (ask_dlg a) = scope\<close> Inr by (simp add: askCall_def ask_chat this1_def)
      have o: "offered this scope a = [u, \<lparr>sender = Assistant, msg_text = answer\<rparr>]"
        using \<open>scopeOf (ask_dlg a) = scope\<close> Inr False by (simp add: offered_def u_def)
      have "history (chat (askCall this a)) scope =
            lastN (nat (memory this1)) (history this1 scope @ [\<lparr>sender = Assistant, msg_text = answer\<rparr>])"
        unfolding c using assms(1) m1 b1 by (intro history_push) simp_all
      also have "\<dots> = lastN (nat (memory this))
                  ((history this scope @ [u]) @ [\<lparr>sender = Assistant, msg_text = answer\<rparr>])"
        unfolding m1 h1 by (rule lastN_lastN_append)
      finally show ?thesis by (simp add: o)
    qed
  qed
qed

lemma askCall_memory: "memory (chat (askCall this a)) = memory this"
  by (simp add: askCall_def ask_memory)

lemma asks_memory: "memory (asks this as) = memory this"
  by (induction as arbitrary: this) (simp_all add: askCall_memory)

lemma asks_history:
  assumes "scope \<noteq> []" "0 \<le> memory this" "int (length (history this scope)) \<le> memory this"
  shows "history (asks this as) scope =
         lastN (nat (memory this)) (history this scope @ offeredAll this scope as)"
  using assms
proof (induction as arbitrary: this)
  case Nil
  then show ?case by (simp add: lastN_short)
next
  case (Cons a as)
  define this1 where "this1 = chat (askCall this a)"
  have h1: "history this1 scope =
            lastN (nat (memory this)) (history this scope @ offered this scope a)"
    unfolding this1_def using Cons.prems by (rule askCall_history)
  have m1: "memory this1 = memory this" by (simp add: this1_def askCall_memory)
  have b1: "int (length (history this1 scope)) \<le> memory this1"
    using Cons.prems(2) by (simp add: h1 m1 length_lastN)
  have "history (asks this1 as) scope =
        lastN (nat (memory this1)) (history this1 scope @ offeredAll this1 scope as)"
    using Cons.prems(1) m1 b1 Cons.prems(2) by (intro Cons.IH) simp_all
  also have "\<dots> = lastN (nat (memory this))
              ((history this scope @ offered this scope a) @ offeredAll this1 scope as)"
    unfolding m1 h1 by (rule lastN_lastN_append)
  finally show ?case by (simp add: this1_def)
qed

section \<open>The bounded history\<close>

lemma constructor_cache: "cache (Chat_constructor conf) = Map.empty"
  by (cases "conf_memory conf"; cases "conf_role conf"; cases "conf_apiVer conf";
      cases "conf_enrich conf"; simp add: Chat_constructor_def Let_def)

text \<open>
  Claim C1. Take a non-empty scope whose stored history is within the memory size, the
  memory size being a size, that is not negative; a freshly constructed object is such,
  all its histories being empty. After every sequence of requests, and so after each request of it, the
  history of the scope is no longer than the memory size, and it is the last
  memory-size entries, oldest first, of the old history followed by the messages the
  requests handed to the scope in their order. One append drops exactly the oldest entry
  when the history was full and nothing otherwise. With memory size 2, three appends to
  the scope leave the last two.
\<close>

theorem history_bounded_fifo:
  assumes "scope \<noteq> []" and "0 \<le> memory this"
    and "int (length (history this scope)) \<le> memory this"
  shows "(\<forall>n. int (length (history (asks this (take n as)) scope)) \<le> memory this) \<and>
         history (asks this as) scope =
           lastN (nat (memory this)) (history this scope @ offeredAll this scope as) \<and>
         history (snd (setMessage this scope s t)) scope =
           (if int (length (history this scope)) = memory this
            then tl (history this scope @ [\<lparr>sender = s, msg_text = t\<rparr>])
            else history this scope @ [\<lparr>sender = s, msg_text = t\<rparr>]) \<and>
         (memory this = 2 \<longrightarrow>
            history (snd (setMessage (snd (setMessage (snd (setMessage this scope s1 t1))
                        scope s2 t2)) scope s3 t3)) scope =
            [\<lparr>sender = s2, msg_text = t2\<rparr>, \<lparr>sender = s3, msg_text = t3\<rparr>]) \<and>
         history (Chat_constructor conf) scope = []"
proof (intro conjI allI impI)
  show "history (Chat_constructor conf) scope = []"
    by (simp add: history_def constructor_cache)
next
  fix n
  have "history (asks this (take n as)) scope =
        lastN (nat (memory this)) (history this scope @ offeredAll this scope (take n as))"
    using assms by (rule asks_history)
  then show "int (length (history (asks this (take n as)) scope)) \<le> memory this"
    using assms(2) by (simp add: length_lastN)
next
  show "history (asks this as) scope =
        lastN (nat (memory this)) (history this scope @ offeredAll this scope as)"
    using assms by (rule asks_history)
next
  show "history (snd (setMessage this scope s t)) scope =
           (if int (length (history this scope)) = memory this
            then tl (history this scope @ [\<lparr>sender = s, msg_text = t\<rparr>])
            else history this scope @ [\<lparr>sender = s, msg_text = t\<rparr>])"
    using assms by (auto simp: history_setMessage_same fst_setMessage)
next
  assume two: "memory this = 2"
  define c1 where "c1 = snd (setMessage this scope s1 t1)"
  define c2 where "c2 = snd (setMessage c1 scope s2 t2)"
  define h where "h = history this scope"
  have m1: "memory c1 = memory this" and m2: "memory c2 = memory this"
    by (simp_all add: c1_def c2_def setMessage_memory)
  have h1: "history c1 scope = lastN 2 (h @ [\<lparr>sender = s1, msg_text = t1\<rparr>])"
    using history_push [OF assms, of s1 t1] two by (simp add: c1_def h_def)
  have b1: "int (length (history c1 scope)) \<le> memory c1"
    using two by (simp add: h1 m1 length_lastN)
  have h2: "history c2 scope = lastN 2 (history c1 scope @ [\<lparr>sender = s2, msg_text = t2\<rparr>])"
    using history_push [OF assms(1) _ b1, of s2 t2] two m1 by (simp add: c2_def)
  have b2: "int (length (history c2 scope)) \<le> memory c2"
    using two by (simp add: h2 m2 length_lastN)
  have "history (snd (setMessage c2 scope s3 t3)) scope =
        lastN 2 (history c2 scope @ [\<lparr>sender = s3, msg_text = t3\<rparr>])"
    using history_push [OF assms(1) _ b2, of s3 t3] two m2 by simp
  also have "\<dots> = lastN 2 ((h @ [\<lparr>sender = s1, msg_text = t1\<rparr>]) @
                 [\<lparr>sender = s2, msg_text = t2\<rparr>, \<lparr>sender = s3, msg_text = t3\<rparr>])"
    using lastN_lastN_append [of 2 "history c1 scope @ [\<lparr>sender = s2, msg_text = t2\<rparr>]"
            "[\<lparr>sender = s3, msg_text = t3\<rparr>]"]
          lastN_lastN_append [of 2 "h @ [\<lparr>sender = s1, msg_text = t1\<rparr>]"
            "[\<lparr>sender = s2, msg_text = t2\<rparr>, \<lparr>sender = s3, msg_text = t3\<rparr>]"]
    by (simp add: h1 h2)
  also have "\<dots> = [\<lparr>sender = s2, msg_text = t2\<rparr>, \<lparr>sender = s3, msg_text = t3\<rparr>]"
    by (simp add: lastN_def)
  finally show "history (snd (setMessage (snd (setMessage (snd (setMessage this scope s1 t1))
                        scope s2 t2)) scope s3 t3)) scope =
            [\<lparr>sender = s2, msg_text = t2\<rparr>, \<lparr>sender = s3, msg_text = t3\<rparr>]"
    by (simp add: c1_def c2_def)
qed

lemma sample_fields:
  "memory (Chat_constructor (sampleConf m f)) = (case m of None \<Rightarrow> 10 | Some k \<Rightarrow> if k = 0 then 10 else k)"
  "cache (Chat_constructor (sampleConf m f)) = Map.empty"
  "enrich (Chat_constructor (sampleConf m f)) = f"
  "role (Chat_constructor (sampleConf m f)) = ''AI assistant''"
  by (cases m; cases f; simp add: Chat_constructor_def sampleConf_def Let_def)+


lemmas run_defs = askCall_def ask_def buildPrompt_def extractSearchQuery_def setMessage_def
  history_def Chat_constructor_def sampleConf_def request_def reply_def noOpts_def
  scopeOf_def clientOpts_def Let_def


theorem history_bounded_fifo_witness:
  "''room1'' \<noteq> [] \<and>
   0 \<le> memory (Chat_constructor (sampleConf (Some 2) None)) \<and>
   int (length (history (Chat_constructor (sampleConf (Some 2) None)) ''room1''))
     \<le> memory (Chat_constructor (sampleConf (Some 2) None)) \<and>
   memory (Chat_constructor (sampleConf (Some 2) None)) = 2 \<and>
   history (asks (Chat_constructor (sampleConf (Some 2) None))
              [request ''A'' (Some ''room1'') ''B'', request ''C'' (Some ''room1'') ''D''])
     ''room1'' =
     [\<lparr>sender = User, msg_text = ''C''\<rparr>, \<lparr>sender = Assistant, msg_text = ''D''\<rparr>] \<and>
   history (snd (setMessage (snd (setMessage (snd (setMessage
              (Chat_constructor (sampleConf (Some 2) None)) ''room1'' User ''A''))
              ''room1'' Assistant ''B'')) ''room1'' User ''C'')) ''room1'' =
     [\<lparr>sender = Assistant, msg_text = ''B''\<rparr>, \<lparr>sender = User, msg_text = ''C''\<rparr>]"
proof -
  define c where "c = Chat_constructor (sampleConf (Some 2) None)"
  define rs where "rs = [request ''A'' (Some ''room1'') ''B'', request ''C'' (Some ''room1'') ''D'']"
  have 1: "''room1'' \<noteq> []" by simp
  have m: "memory c = 2" by (simp add: c_def sample_fields)
  have 2: "0 \<le> memory c" by (simp add: m)
  have 3: "int (length (history c ''room1'')) \<le> memory c"
    by (simp add: m) (simp add: c_def history_def sample_fields)
  have o: "offeredAll c ''room1'' rs =
      [\<lparr>sender = User, msg_text = ''A''\<rparr>, \<lparr>sender = Assistant, msg_text = ''B''\<rparr>,
       \<lparr>sender = User, msg_text = ''C''\<rparr>, \<lparr>sender = Assistant, msg_text = ''D''\<rparr>]"
    by (simp add: c_def rs_def offered_def run_defs)
  have h: "history c ''room1'' = []" by (simp add: c_def history_def sample_fields)
  from history_bounded_fifo [OF 1 2 3, of rs User "''A''" User "''A''" Assistant "''B''" User "''C''"]
  have "history (asks c rs) ''room1'' = lastN (nat (memory c)) (history c ''room1'' @ offeredAll c ''room1'' rs)"
    and "memory c = 2 \<longrightarrow>
      history (snd (setMessage (snd (setMessage (snd (setMessage c ''room1'' User ''A''))
              ''room1'' Assistant ''B'')) ''room1'' User ''C'')) ''room1'' =
      [\<lparr>sender = Assistant, msg_text = ''B''\<rparr>, \<lparr>sender = User, msg_text = ''C''\<rparr>]"
    by blast+
  then show ?thesis using 1 2 3 m unfolding c_def [symmetric] rs_def [symmetric]
    by (simp add: o h lastN_def)
qed

section \<open>The shape of the prompt\<close>

lemma buildPrompt_shape:
  assumes "buildPrompt this qres ms = (cs, Inr p)"
  shows "ms \<noteq> [] \<and>
         (\<exists>facts. p = systemSegment (role this) facts @ turns ms @ continuation \<and>
                  (enrich this = None \<longrightarrow> facts = []))"
proof -
  have ne: "ms \<noteq> []" using assms by (auto simp: buildPrompt_Nil)
  show ?thesis
  proof (cases "snd (extractSearchQuery this qres (msg_text (last ms)))")
    case (Inl e)
    then show ?thesis using assms buildPrompt_query_failed [OF ne Inl] by simp
  next
    case (Inr q)
    show ?thesis
    proof (cases "enrich this")
      case None
      then show ?thesis using assms ne buildPrompt_no_enrich [OF ne Inr None] by auto
    next
      case (Some f)
      then show ?thesis using assms ne buildPrompt_enrich [OF ne Inr Some]
        by (cases "f (if q \<noteq> [] then q else msg_text (last ms))") auto
    qed
  qed
qed

lemma ask_assembled:
  "(assembled (ask this t dlg opts qres res) = Some p) =
   (\<exists>cs. buildPrompt this qres (fst (setMessage this (scopeOf dlg) User t)) = (cs, Inr p))"
proof -
  obtain cs r where bp:
    "buildPrompt this qres (fst (setMessage this (scopeOf dlg) User t)) = (cs, r)"
    by (cases "buildPrompt this qres (fst (setMessage this (scopeOf dlg) User t))")
  show ?thesis
  proof (cases r)
    case (Inl e)
    with bp show ?thesis by (simp add: ask_failed_prompt)
  next
    case (Inr p')
    with bp show ?thesis by (simp add: ask_prompt)
  qed
qed

lemma turns_continuation_start:
  "startsWith (turns ms @ continuation) ''\<newline><|im_start|>'' \<and>
   \<not> startsWith (turns ms @ continuation) ''\<newline><|im_end|>''"
  by (cases ms) (simp_all add: turns_def turn_def continuation_def)

lemma buildPrompt_pinned:
  assumes "buildPrompt this qres ms = (cs, Inr p)"
  shows "\<exists>q facts.
           snd (extractSearchQuery this qres (msg_text (last ms))) = Inr q \<and>
           (case enrich this of
              None \<Rightarrow> Inr []
            | Some f \<Rightarrow> f (if q \<noteq> [] then q else msg_text (last ms))) = Inr facts \<and>
           p = systemSegment (role this) facts @ turns ms @ continuation"
proof -
  have ne: "ms \<noteq> []" using assms by (auto simp: buildPrompt_Nil)
  show ?thesis
  proof (cases "snd (extractSearchQuery this qres (msg_text (last ms)))")
    case (Inl e)
    then show ?thesis using assms buildPrompt_query_failed [OF ne Inl] by simp
  next
    case (Inr q)
    show ?thesis
    proof (cases "enrich this")
      case None
      have "p = systemSegment (role this) [] @ turns ms @ continuation"
        using assms buildPrompt_no_enrich [OF ne Inr None] by simp
      then show ?thesis using Inr None by simp
    next
      case (Some f)
      show ?thesis
      proof (cases "f (if q \<noteq> [] then q else msg_text (last ms))")
        case (Inl e)
        then show ?thesis using assms buildPrompt_enrich [OF ne Inr Some] by simp
      next
        case fr: (Inr facts)
        have "p = systemSegment (role this) facts @ turns ms @ continuation"
          using assms buildPrompt_enrich [OF ne Inr Some] fr by simp
        then show ?thesis using Inr Some fr by simp
      qed
    qed
  qed
qed

lemma not_closed: "a @ x \<noteq> a @ ''\<newline><|im_end|>'' @ x"
proof
  assume "a @ x = a @ ''\<newline><|im_end|>'' @ x"
  then have "length x = length (''\<newline><|im_end|>'' @ x)" by simp
  then show False by simp
qed


text \<open>
  Claim C7. Whenever \<^verbatim>\<open>buildPrompt\<close> returns a prompt, for any message list as for a
  call of \<^verbatim>\<open>ask\<close>, query extraction has returned a query, the facts are what the
  callback returned for it (the empty string when there is no callback), and the prompt
  is exactly the opening of the system segment, the role, the facts block when the facts
  are not empty, the turns of the messages and the continuation marker. It is not the
  prompt with the closing delimiter after the system segment: what follows the system
  segment starts with the opening delimiter of the next turn and not with the closing
  one.
\<close>

theorem system_segment_not_closed:
  "(buildPrompt this qres ms = (cs, Inr p) \<longrightarrow>
      (\<exists>q facts.
         snd (extractSearchQuery this qres (msg_text (last ms))) = Inr q \<and>
         (case enrich this of
            None \<Rightarrow> Inr []
          | Some f \<Rightarrow> f (if q \<noteq> [] then q else msg_text (last ms))) = Inr facts \<and>
         p = ''<|im_start|>system\<newline>'' @ role this @
             (if facts \<noteq> [] then ''\<newline>\<newline>Facts:\<newline>'' @ trim facts else []) @
             turns ms @ continuation \<and>
         p \<noteq> ''<|im_start|>system\<newline>'' @ role this @
             (if facts \<noteq> [] then ''\<newline>\<newline>Facts:\<newline>'' @ trim facts else []) @
             ''\<newline><|im_end|>'' @ turns ms @ continuation) \<and>
      startsWith (turns ms @ continuation) ''\<newline><|im_start|>'' \<and>
      \<not> startsWith (turns ms @ continuation) ''\<newline><|im_end|>'') \<and>
   (assembled (ask this t dlg opts qres res) = Some p' \<longrightarrow>
      (\<exists>q facts ms'.
         ms' = fst (setMessage this (scopeOf dlg) User t) \<and>
         snd (extractSearchQuery this qres t) = Inr q \<and>
         (case enrich this of
            None \<Rightarrow> Inr []
          | Some f \<Rightarrow> f (if q \<noteq> [] then q else t)) = Inr facts \<and>
         p' = ''<|im_start|>system\<newline>'' @ role this @
              (if facts \<noteq> [] then ''\<newline>\<newline>Facts:\<newline>'' @ trim facts else []) @
              turns ms' @ continuation \<and>
         p' \<noteq> ''<|im_start|>system\<newline>'' @ role this @
              (if facts \<noteq> [] then ''\<newline>\<newline>Facts:\<newline>'' @ trim facts else []) @
              ''\<newline><|im_end|>'' @ turns ms' @ continuation \<and>
         startsWith (turns ms' @ continuation) ''\<newline><|im_start|>'' \<and>
         \<not> startsWith (turns ms' @ continuation) ''\<newline><|im_end|>''))"
proof (intro conjI impI)
  assume bp: "buildPrompt this qres ms = (cs, Inr p)"
  from buildPrompt_pinned [OF bp] obtain q facts where
    q: "snd (extractSearchQuery this qres (msg_text (last ms))) = Inr q"
    and f: "(case enrich this of
            None \<Rightarrow> Inr []
          | Some f \<Rightarrow> f (if q \<noteq> [] then q else msg_text (last ms))) = Inr facts"
    and p: "p = systemSegment (role this) facts @ turns ms @ continuation"
    by (elim exE conjE)
  define a where "a = ''<|im_start|>system\<newline>'' @ role this @
             (if facts \<noteq> [] then ''\<newline>\<newline>Facts:\<newline>'' @ trim facts else [])"
  have pa: "p = a @ turns ms @ continuation"
    using p by (simp add: systemSegment_def a_def)
  have "p \<noteq> a @ ''\<newline><|im_end|>'' @ turns ms @ continuation"
    unfolding pa by (rule not_closed)
  with pa have "p = ''<|im_start|>system\<newline>'' @ role this @
             (if facts \<noteq> [] then ''\<newline>\<newline>Facts:\<newline>'' @ trim facts else []) @
             turns ms @ continuation \<and>
         p \<noteq> ''<|im_start|>system\<newline>'' @ role this @
             (if facts \<noteq> [] then ''\<newline>\<newline>Facts:\<newline>'' @ trim facts else []) @
             ''\<newline><|im_end|>'' @ turns ms @ continuation"
    by (simp add: a_def)
  with q f show "\<exists>q facts.
         snd (extractSearchQuery this qres (msg_text (last ms))) = Inr q \<and>
         (case enrich this of
            None \<Rightarrow> Inr []
          | Some f \<Rightarrow> f (if q \<noteq> [] then q else msg_text (last ms))) = Inr facts \<and>
         p = ''<|im_start|>system\<newline>'' @ role this @
             (if facts \<noteq> [] then ''\<newline>\<newline>Facts:\<newline>'' @ trim facts else []) @
             turns ms @ continuation \<and>
         p \<noteq> ''<|im_start|>system\<newline>'' @ role this @
             (if facts \<noteq> [] then ''\<newline>\<newline>Facts:\<newline>'' @ trim facts else []) @
             ''\<newline><|im_end|>'' @ turns ms @ continuation"
    by (intro exI [of _ q] exI [of _ facts] conjI) simp_all
  show "startsWith (turns ms @ continuation) ''\<newline><|im_start|>''"
    using turns_continuation_start [of ms] by (rule conjunct1)
  show "\<not> startsWith (turns ms @ continuation) ''\<newline><|im_end|>''"
    using turns_continuation_start [of ms] by (rule conjunct2)
next
  assume "assembled (ask this t dlg opts qres res) = Some p'"
  define ms' where "ms' = fst (setMessage this (scopeOf dlg) User t)"
  from \<open>assembled (ask this t dlg opts qres res) = Some p'\<close> obtain cs' where
    bp: "buildPrompt this qres ms' = (cs', Inr p')"
    by (auto simp: ask_assembled ms'_def)
  have ne: "ms' \<noteq> []" using buildPrompt_shape [OF bp] by (rule conjunct1)
  have lst: "msg_text (last ms') = t"
    using pushed_last [of this "scopeOf dlg" User t] ne by (simp add: ms'_def)
  from buildPrompt_pinned [OF bp] obtain q facts where
    q: "snd (extractSearchQuery this qres t) = Inr q"
    and f: "(case enrich this of
            None \<Rightarrow> Inr []
          | Some f \<Rightarrow> f (if q \<noteq> [] then q else t)) = Inr facts"
    and p: "p' = systemSegment (role this) facts @ turns ms' @ continuation"
    unfolding lst by (elim exE conjE)
  define a where "a = ''<|im_start|>system\<newline>'' @ role this @
             (if facts \<noteq> [] then ''\<newline>\<newline>Facts:\<newline>'' @ trim facts else [])"
  have pa: "p' = a @ turns ms' @ continuation"
    using p by (simp add: systemSegment_def a_def)
  have "p' \<noteq> a @ ''\<newline><|im_end|>'' @ turns ms' @ continuation"
    unfolding pa by (rule not_closed)
  with pa have pp: "p' = ''<|im_start|>system\<newline>'' @ role this @
             (if facts \<noteq> [] then ''\<newline>\<newline>Facts:\<newline>'' @ trim facts else []) @
             turns ms' @ continuation \<and>
         p' \<noteq> ''<|im_start|>system\<newline>'' @ role this @
             (if facts \<noteq> [] then ''\<newline>\<newline>Facts:\<newline>'' @ trim facts else []) @
             ''\<newline><|im_end|>'' @ turns ms' @ continuation"
    by (simp add: a_def)
  show "\<exists>q facts ms'.
         ms' = fst (setMessage this (scopeOf dlg) User t) \<and>
         snd (extractSearchQuery this qres t) = Inr q \<and>
         (case enrich this of
            None \<Rightarrow> Inr []
          | Some f \<Rightarrow> f (if q \<noteq> [] then q else t)) = Inr facts \<and>
         p' = ''<|im_start|>system\<newline>'' @ role this @
              (if facts \<noteq> [] then ''\<newline>\<newline>Facts:\<newline>'' @ trim facts else []) @
              turns ms' @ continuation \<and>
         p' \<noteq> ''<|im_start|>system\<newline>'' @ role this @
              (if facts \<noteq> [] then ''\<newline>\<newline>Facts:\<newline>'' @ trim facts else []) @
              ''\<newline><|im_end|>'' @ turns ms' @ continuation \<and>
         startsWith (turns ms' @ continuation) ''\<newline><|im_start|>'' \<and>
         \<not> startsWith (turns ms' @ continuation) ''\<newline><|im_end|>''"
    using q f pp turns_continuation_start [of ms'] ms'_def
    by (intro exI [of _ q] exI [of _ facts] exI [of _ ms'] conjI) simp_all
qed


theorem system_segment_not_closed_witness:
  "buildPrompt (Chat_constructor (sampleConf None None)) (reply 200 ''greeting'')
     [\<lparr>sender = User, msg_text = ''Hi''\<rparr>] =
     (fst (extractSearchQuery (Chat_constructor (sampleConf None None)) (reply 200 ''greeting'') ''Hi''),
      Inr ''<|im_start|>system\<newline>AI assistant\<newline><|im_start|>user\<newline>Hi\<newline><|im_end|>\<newline><|im_start|>assistant\<newline>'') \<and>
   assembled (ask (Chat_constructor (sampleConf None None)) ''Hi'' None noOpts
      (reply 200 ''greeting'') (reply 200 ''Hello'')) =
     Some ''<|im_start|>system\<newline>AI assistant\<newline><|im_start|>user\<newline>Hi\<newline><|im_end|>\<newline><|im_start|>assistant\<newline>'' \<and>
   getFacts (Inr ''Marseoni facts\<newline>'') ''food'' = Inr ''Marseoni facts\<newline>'' \<and>
   assembled (ask (Chat_constructor (sampleConf None (Some (getFacts (Inr ''Marseoni facts\<newline>'')))))
      ''What food?'' (Some ''room1'') noOpts (reply 200 ''food'') (reply 200 ''Pasta'')) =
     Some ''<|im_start|>system\<newline>AI assistant\<newline>\<newline>Facts:\<newline>Marseoni facts\<newline><|im_start|>user\<newline>What food?\<newline><|im_end|>\<newline><|im_start|>assistant\<newline>'' \<and>
   ''<|im_start|>system\<newline>AI assistant\<newline>\<newline>Facts:\<newline>Marseoni facts\<newline><|im_start|>user\<newline>What food?\<newline><|im_end|>\<newline><|im_start|>assistant\<newline>'' \<noteq>
   ''<|im_start|>system\<newline>AI assistant\<newline>\<newline>Facts:\<newline>Marseoni facts\<newline><|im_end|>\<newline><|im_start|>user\<newline>What food?\<newline><|im_end|>\<newline><|im_start|>assistant\<newline>''"
proof -
  define c where "c = Chat_constructor (sampleConf None None)"
  define cf where "cf = Chat_constructor (sampleConf None (Some (getFacts (Inr ''Marseoni facts\<newline>''))))"
  define p0 where "p0 = ''<|im_start|>system\<newline>AI assistant\<newline><|im_start|>user\<newline>Hi\<newline><|im_end|>\<newline><|im_start|>assistant\<newline>''"
  define pf where "pf = ''<|im_start|>system\<newline>AI assistant\<newline>\<newline>Facts:\<newline>Marseoni facts\<newline><|im_start|>user\<newline>What food?\<newline><|im_end|>\<newline><|im_start|>assistant\<newline>''"
  define closed where "closed = ''<|im_start|>system\<newline>AI assistant\<newline>\<newline>Facts:\<newline>Marseoni facts\<newline><|im_end|>\<newline><|im_start|>user\<newline>What food?\<newline><|im_end|>\<newline><|im_start|>assistant\<newline>''"
  have bp: "buildPrompt c (reply 200 ''greeting'') [\<lparr>sender = User, msg_text = ''Hi''\<rparr>] =
     (fst (extractSearchQuery c (reply 200 ''greeting'') ''Hi''), Inr p0)"
    by (simp add: c_def p0_def run_defs)
  have a0: "assembled (ask c ''Hi'' None noOpts (reply 200 ''greeting'') (reply 200 ''Hello'')) = Some p0"
    by (simp add: c_def p0_def run_defs)
  have g: "getFacts (Inr ''Marseoni facts\<newline>'') ''food'' = Inr ''Marseoni facts\<newline>''"
    by (simp add: getFacts_def toLowerCase_def lowerChar_def)
  have tr: "trim ''Marseoni facts\<newline>'' = ''Marseoni facts''"
    by (simp add: trim_def isWhiteSpace_def)
  have en: "enrich cf = Some (getFacts (Inr ''Marseoni facts\<newline>''))" and rl: "role cf = ''AI assistant''"
    by (simp_all add: cf_def sample_fields)
  have ex: "snd (extractSearchQuery cf (reply 200 ''food'') ''What food?'') = Inr ''food''"
    by (simp add: extractSearchQuery_def reply_def)
  have ms: "fst (setMessage cf (scopeOf (Some ''room1'')) User ''What food?'') =
            [\<lparr>sender = User, msg_text = ''What food?''\<rparr>]"
    by (simp add: cf_def scopeOf_def setMessage_def history_def sample_fields Let_def)
  have af: "assembled (ask cf ''What food?'' (Some ''room1'') noOpts (reply 200 ''food'') (reply 200 ''Pasta'')) = Some pf"
    using en rl ex g
    by (simp add: ask_assembled ms buildPrompt_enrich systemSegment_def turns_def turn_def
        continuation_def tr pf_def)
  note T = system_segment_not_closed
    [of cf "reply 200 ''food''" _ _ _ "''What food?''" "Some ''room1''" noOpts
        "reply 200 ''Pasta''" pf]
  have "pf \<noteq> closed"
  proof -
    from T [THEN conjunct2, THEN mp, OF af] obtain q facts ms' where
      m: "ms' = fst (setMessage cf (scopeOf (Some ''room1'')) User ''What food?'')"
      and q: "snd (extractSearchQuery cf (reply 200 ''food'') ''What food?'') = Inr q"
      and f: "(case enrich cf of None \<Rightarrow> Inr []
               | Some f \<Rightarrow> f (if q \<noteq> [] then q else ''What food?'')) = Inr facts"
      and n: "pf \<noteq> ''<|im_start|>system\<newline>'' @ role cf @
              (if facts \<noteq> [] then ''\<newline>\<newline>Facts:\<newline>'' @ trim facts else []) @
              ''\<newline><|im_end|>'' @ turns ms' @ continuation"
      by (elim exE conjE)
    have "q = ''food''" using q ex by simp
    then have "facts = ''Marseoni facts\<newline>''" using f en g by simp
    then show ?thesis using n m
      by (simp add: ms rl tr turns_def turn_def continuation_def closed_def)
  qed
  then show ?thesis
    unfolding c_def [symmetric] cf_def [symmetric] p0_def [symmetric] pf_def [symmetric]
      closed_def [symmetric]
    using bp a0 g af by (intro conjI)
qed

section \<open>A completion call that fails\<close>

lemma ask_calls:
  assumes "buildPrompt this qres (fst (setMessage this (scopeOf dlg) User t)) = (cs, Inr p)"
  shows "\<exists>req. calls (ask this t dlg opts qres res) = cs @ [CreateCompletion req (clientOpts this)] \<and>
               req_prompt req = p"
  using ask_prompt [OF assms, of opts res] by simp

text \<open>
  Claim C3. When \<^verbatim>\<open>ask\<close> has assembled its prompt and the completion call it then makes
  comes back with a status other than 200, \<^verbatim>\<open>ask\<close> throws the error made of that status
  text and status; it has made that one completion call, after the calls of prompt
  assembly, and no other; and the object is left as the append of the user's message
  left it, so that no assistant entry has been added to any history.
\<close>

theorem completion_failure:
  assumes "assembled (ask this t dlg opts qres res) = Some p"
    and "status res \<noteq> 200"
  shows "result (ask this t dlg opts qres res) = Inl (ApiError (statusText res) (status res)) \<and>
         chat (ask this t dlg opts qres res) = snd (setMessage this (scopeOf dlg) User t) \<and>
         (\<exists>req. calls (ask this t dlg opts qres res) =
                  fst (buildPrompt this qres (fst (setMessage this (scopeOf dlg) User t))) @
                  [CreateCompletion req (clientOpts this)] \<and>
                req_prompt req = p)"
proof -
  from assms(1) obtain cs where
    bp: "buildPrompt this qres (fst (setMessage this (scopeOf dlg) User t)) = (cs, Inr p)"
    by (auto simp: ask_assembled)
  have "result (ask this t dlg opts qres res) = Inl (ApiError (statusText res) (status res))"
    using assms(2) by (simp add: ask_prompt [OF bp])
  moreover have "chat (ask this t dlg opts qres res) = snd (setMessage this (scopeOf dlg) User t)"
    using assms(2) by (simp add: ask_prompt [OF bp])
  moreover have "\<exists>req. calls (ask this t dlg opts qres res) =
                  fst (buildPrompt this qres (fst (setMessage this (scopeOf dlg) User t))) @
                  [CreateCompletion req (clientOpts this)] \<and>
                req_prompt req = p"
    using ask_calls [OF bp, of opts res] by (simp add: bp)
  ultimately show ?thesis by blast
qed

theorem completion_failure_witness:
  "assembled (ask (Chat_constructor (sampleConf None None)) ''Hi'' (Some ''room1'') noOpts
      (reply 200 ''greeting'') (reply 429 ''''))
     = Some ''<|im_start|>system\<newline>AI assistant\<newline><|im_start|>user\<newline>Hi\<newline><|im_end|>\<newline><|im_start|>assistant\<newline>'' \<and>
   status (reply 429 '''') \<noteq> 200 \<and>
   result (ask (Chat_constructor (sampleConf None None)) ''Hi'' (Some ''room1'') noOpts
      (reply 200 ''greeting'') (reply 429 '''')) = Inl (ApiError ''Error'' 429) \<and>
   history (chat (ask (Chat_constructor (sampleConf None None)) ''Hi'' (Some ''room1'') noOpts
      (reply 200 ''greeting'') (reply 429 ''''))) ''room1'' = [\<lparr>sender = User, msg_text = ''Hi''\<rparr>]"
proof -
  have a: "assembled (ask (Chat_constructor (sampleConf None None)) ''Hi'' (Some ''room1'') noOpts
      (reply 200 ''greeting'') (reply 429 ''''))
     = Some ''<|im_start|>system\<newline>AI assistant\<newline><|im_start|>user\<newline>Hi\<newline><|im_end|>\<newline><|im_start|>assistant\<newline>''"
    by (simp add: run_defs)
  have s: "status (reply 429 '''') \<noteq> 200" by (simp add: reply_def)
  have h: "history (snd (setMessage (Chat_constructor (sampleConf None None))
             (scopeOf (Some ''room1'')) User ''Hi'')) ''room1'' = [\<lparr>sender = User, msg_text = ''Hi''\<rparr>]"
    by (simp add: run_defs)
  have st: "statusText (reply 429 '''') = ''Error''" "status (reply 429 '''') = 429"
    by (simp_all add: reply_def)
  from completion_failure [OF a s] show ?thesis
    using a s h st by simp
qed

section \<open>The empty scope\<close>

lemma scopeOf_empty: "(scopeOf dlg = []) = (dlg = None \<or> dlg = Some [])"
  by (cases dlg) (simp_all add: scopeOf_def)

lemma ask_cache:
  assumes "scopeOf dlg = []"
  shows "calls (ask (this\<lparr>cache := k\<rparr>) t dlg opts qres res) = calls (ask this t dlg opts qres res) \<and>
         assembled (ask (this\<lparr>cache := k\<rparr>) t dlg opts qres res) = assembled (ask this t dlg opts qres res) \<and>
         result (ask (this\<lparr>cache := k\<rparr>) t dlg opts qres res) = result (ask this t dlg opts qres res)"
proof -
  obtain cs r where bp:
    "buildPrompt this qres (fst (setMessage this (scopeOf dlg) User t)) = (cs, r)"
    by (cases "buildPrompt this qres (fst (setMessage this (scopeOf dlg) User t))")
  then have bp': "buildPrompt (this\<lparr>cache := k\<rparr>) qres
                    (fst (setMessage (this\<lparr>cache := k\<rparr>) (scopeOf dlg) User t)) = (cs, r)"
    using assms by (simp add: setMessage_empty buildPrompt_cache)
  show ?thesis
  proof (cases r)
    case (Inl e)
    with bp bp' show ?thesis by (simp add: ask_failed_prompt)
  next
    case (Inr p)
    with bp bp' show ?thesis by (simp add: ask_prompt clientOpts_def)
  qed
qed

text \<open>
  Claim C4. A call of \<^verbatim>\<open>ask\<close> whose scope is omitted or empty leaves the object, and
  with it every stored history, as it was: \<^verbatim>\<open>setMessage\<close> hands back the singleton list
  of the new message and stores nothing. What the call does (its calls, its prompt, its
  outcome) is the same whatever the stored histories are, the prompt it assembles holds
  the one turn of its own text, and a second call with an empty scope runs exactly as it
  would have run without the first.
\<close>

theorem empty_scope_stateless:
  assumes "dlg = None \<or> dlg = Some []" and "dlg' = None \<or> dlg' = Some []"
  shows "chat (ask this t dlg opts qres res) = this \<and>
         setMessage this [] s x = ([\<lparr>sender = s, msg_text = x\<rparr>], this) \<and>
         (\<forall>k. calls (ask (this\<lparr>cache := k\<rparr>) t dlg opts qres res) =
                calls (ask this t dlg opts qres res) \<and>
              assembled (ask (this\<lparr>cache := k\<rparr>) t dlg opts qres res) =
                assembled (ask this t dlg opts qres res) \<and>
              result (ask (this\<lparr>cache := k\<rparr>) t dlg opts qres res) =
                result (ask this t dlg opts qres res)) \<and>
         (\<forall>p. assembled (ask this t dlg opts qres res) = Some p \<longrightarrow>
              (\<exists>facts. p = systemSegment (role this) facts @ turn User t @ continuation)) \<and>
         ask (chat (ask this t dlg opts qres res)) t' dlg' opts' qres' res' =
           ask this t' dlg' opts' qres' res'"
proof -
  have e: "scopeOf dlg = []" using assms(1) by (simp add: scopeOf_empty)
  have c: "chat (ask this t dlg opts qres res) = this"
    by (simp add: ask_chat e setMessage_empty split: sum.split)
  have p: "\<forall>p. assembled (ask this t dlg opts qres res) = Some p \<longrightarrow>
              (\<exists>facts. p = systemSegment (role this) facts @ turn User t @ continuation)"
  proof (intro allI impI)
    fix p assume "assembled (ask this t dlg opts qres res) = Some p"
    then obtain cs where
      "buildPrompt this qres [\<lparr>sender = User, msg_text = t\<rparr>] = (cs, Inr p)"
      by (auto simp: ask_assembled e setMessage_empty)
    from buildPrompt_shape [OF this]
    show "\<exists>facts. p = systemSegment (role this) facts @ turn User t @ continuation"
      by (auto simp: turns_def)
  qed
  show ?thesis using c p ask_cache [OF e] by (simp add: setMessage_empty)
qed

theorem empty_scope_stateless_witness:
  "chat (ask (asks (Chat_constructor (sampleConf None None)) [request ''A'' (Some ''room1'') ''B''])
      ''Hi'' None noOpts (reply 200 ''greeting'') (reply 200 ''Hello'')) =
     asks (Chat_constructor (sampleConf None None)) [request ''A'' (Some ''room1'') ''B''] \<and>
   assembled (ask (asks (Chat_constructor (sampleConf None None)) [request ''A'' (Some ''room1'') ''B''])
      ''Hi'' None noOpts (reply 200 ''greeting'') (reply 200 ''Hello'')) =
     Some (systemSegment ''AI assistant'' [] @ turn User ''Hi'' @ continuation) \<and>
   ask (chat (ask (asks (Chat_constructor (sampleConf None None)) [request ''A'' (Some ''room1'') ''B''])
          ''Hi'' None noOpts (reply 200 ''greeting'') (reply 200 ''Hello'')))
      ''Again'' (Some []) noOpts (reply 200 ''again'') (reply 200 ''Yes'') =
     ask (asks (Chat_constructor (sampleConf None None)) [request ''A'' (Some ''room1'') ''B''])
      ''Again'' (Some []) noOpts (reply 200 ''again'') (reply 200 ''Yes'')"
proof -
  define c where "c = asks (Chat_constructor (sampleConf None None)) [request ''A'' (Some ''room1'') ''B'']"
  have 1: "(None :: string option) = None \<or> (None :: string option) = Some []" by simp
  have 2: "Some ([] :: string) = None \<or> Some ([] :: string) = Some []" by simp
  have e: "enrich c = None" "role c = ''AI assistant''"
    by (simp_all add: c_def run_defs)
  have a: "assembled (ask c ''Hi'' None noOpts (reply 200 ''greeting'') (reply 200 ''Hello'')) =
     Some (systemSegment ''AI assistant'' [] @ turn User ''Hi'' @ continuation)"
    using e by (simp add: ask_def setMessage_def buildPrompt_def extractSearchQuery_def reply_def
        systemSegment_def turn_def continuation_def Let_def)
  from empty_scope_stateless [OF 1 2, of c "''Hi''" noOpts "reply 200 ''greeting''" "reply 200 ''Hello''"
      User "''Hi''" "''Again''" noOpts "reply 200 ''again''" "reply 200 ''Yes''"] a
  show ?thesis unfolding c_def by simp
qed

section \<open>An answer that is empty\<close>

text \<open>
  Claim C5. When \<^verbatim>\<open>ask\<close> has assembled its prompt and the completion call comes back
  with status 200 and a first choice, \<^verbatim>\<open>ask\<close> returns the text of that choice, the empty
  string when the text is absent. With an absent or empty text it returns the empty
  string and leaves the object as the append of the user's message left it; with any
  other text it appends the assistant's entry through \<^verbatim>\<open>setMessage\<close>. So, for a
  non-empty scope, the history ends with an assistant entry, the one of this answer,
  if and only if the answer is not empty.
\<close>

theorem empty_answer_not_recorded:
  assumes "assembled (ask this t dlg opts qres res) = Some p"
    and "status res = 200" and "choices res = ch # rest"
  shows "(ch = None \<or> ch = Some [] \<longrightarrow>
            result (ask this t dlg opts qres res) = Inr [] \<and>
            chat (ask this t dlg opts qres res) = snd (setMessage this (scopeOf dlg) User t)) \<and>
         (\<forall>a. ch = Some a \<and> a \<noteq> [] \<longrightarrow>
            result (ask this t dlg opts qres res) = Inr a \<and>
            chat (ask this t dlg opts qres res) =
              snd (setMessage (snd (setMessage this (scopeOf dlg) User t)) (scopeOf dlg) Assistant a) \<and>
            (scopeOf dlg \<noteq> [] \<longrightarrow>
               last (history (chat (ask this t dlg opts qres res)) (scopeOf dlg)) =
               \<lparr>sender = Assistant, msg_text = a\<rparr>)) \<and>
         (scopeOf dlg \<noteq> [] \<longrightarrow>
            history (chat (ask this t dlg opts qres res)) (scopeOf dlg) \<noteq> [] \<and>
            (sender (last (history (chat (ask this t dlg opts qres res)) (scopeOf dlg))) = Assistant) =
            (ch \<noteq> None \<and> ch \<noteq> Some []))"
proof -
  define d where "d = scopeOf dlg"
  define this1 where "this1 = snd (setMessage this d User t)"
  define ms where "ms = fst (setMessage this d User t)"
  from assms(1) obtain cs where bp: "buildPrompt this qres ms = (cs, Inr p)"
    by (auto simp: ask_assembled ms_def d_def)
  have ne: "ms \<noteq> []" using buildPrompt_shape [OF bp] by blast
  have lst: "last ms = \<lparr>sender = User, msg_text = t\<rparr>"
    using ne unfolding ms_def by (rule pushed_last)
  have run: "result (ask this t dlg opts qres res) = Inr (case ch of None \<Rightarrow> [] | Some a \<Rightarrow> a)"
    "chat (ask this t dlg opts qres res) =
       (if (case ch of None \<Rightarrow> [] | Some a \<Rightarrow> a) \<noteq> []
        then snd (setMessage this1 d Assistant (case ch of None \<Rightarrow> [] | Some a \<Rightarrow> a))
        else this1)"
    using assms(2,3) bp by (simp_all add: ask_prompt ms_def d_def this1_def)
  have empty: "ch = None \<or> ch = Some [] \<Longrightarrow>
      result (ask this t dlg opts qres res) = Inr [] \<and> chat (ask this t dlg opts qres res) = this1"
    using run by auto
  have h1: "d \<noteq> [] \<Longrightarrow> history this1 d = ms"
    by (simp add: this1_def ms_def history_setMessage_same)
  have full: "result (ask this t dlg opts qres res) = Inr a \<and>
      chat (ask this t dlg opts qres res) = snd (setMessage this1 d Assistant a) \<and>
      (d \<noteq> [] \<longrightarrow> history (chat (ask this t dlg opts qres res)) d \<noteq> [] \<and>
         last (history (chat (ask this t dlg opts qres res)) d) = \<lparr>sender = Assistant, msg_text = a\<rparr>)"
    if "ch = Some a" "a \<noteq> []" for a
  proof -
    have c: "chat (ask this t dlg opts qres res) = snd (setMessage this1 d Assistant a)"
      and r: "result (ask this t dlg opts qres res) = Inr a"
      using run that by simp_all
    have "history (snd (setMessage this1 d Assistant a)) d \<noteq> [] \<and>
          last (history (snd (setMessage this1 d Assistant a)) d) = \<lparr>sender = Assistant, msg_text = a\<rparr>"
      if dn: "d \<noteq> []"
    proof -
      have n: "fst (setMessage this1 d Assistant a) \<noteq> []"
        using dn h1 [OF dn] ne by (intro pushed_after_nonempty) simp_all
      have "history (snd (setMessage this1 d Assistant a)) d = fst (setMessage this1 d Assistant a)"
        using dn by (rule history_setMessage_same)
      then show ?thesis using n pushed_last [OF n] by simp
    qed
    then show ?thesis using c r by simp
  qed
  have iff: "history (chat (ask this t dlg opts qres res)) d \<noteq> [] \<and>
      (sender (last (history (chat (ask this t dlg opts qres res)) d)) = Assistant) =
      (ch \<noteq> None \<and> ch \<noteq> Some [])" if dn: "d \<noteq> []"
  proof (cases "ch = None \<or> ch = Some []")
    case True
    then have "history (chat (ask this t dlg opts qres res)) d = ms"
      using empty h1 [OF dn] by simp
    then show ?thesis using True ne lst by auto
  next
    case False
    then obtain a where "ch = Some a" "a \<noteq> []" by (cases ch) auto
    from full [OF this] dn
    have "history (chat (ask this t dlg opts qres res)) d \<noteq> []"
      and "last (history (chat (ask this t dlg opts qres res)) d) = \<lparr>sender = Assistant, msg_text = a\<rparr>"
      by blast+
    then show ?thesis using False by simp
  qed
  show ?thesis using empty full iff unfolding d_def this1_def by blast
qed

theorem empty_answer_not_recorded_witness:
  "assembled (ask (Chat_constructor (sampleConf None None)) ''Hi'' (Some ''room1'') noOpts
      (reply 200 ''greeting'') (reply 200 ''''))
     = Some ''<|im_start|>system\<newline>AI assistant\<newline><|im_start|>user\<newline>Hi\<newline><|im_end|>\<newline><|im_start|>assistant\<newline>'' \<and>
   status (reply 200 '''') = 200 \<and> choices (reply 200 '''') = [Some []] \<and>
   result (ask (Chat_constructor (sampleConf None None)) ''Hi'' (Some ''room1'') noOpts
      (reply 200 ''greeting'') (reply 200 '''')) = Inr [] \<and>
   history (chat (ask (Chat_constructor (sampleConf None None)) ''Hi'' (Some ''room1'') noOpts
      (reply 200 ''greeting'') (reply 200 ''''))) ''room1'' = [\<lparr>sender = User, msg_text = ''Hi''\<rparr>] \<and>
   assembled (ask (Chat_constructor (sampleConf None None)) ''Hi'' (Some ''room1'') noOpts
      (reply 200 ''greeting'') (reply 200 ''Hello''))
     = Some ''<|im_start|>system\<newline>AI assistant\<newline><|im_start|>user\<newline>Hi\<newline><|im_end|>\<newline><|im_start|>assistant\<newline>'' \<and>
   choices (reply 200 ''Hello'') = [Some ''Hello''] \<and>
   result (ask (Chat_constructor (sampleConf None None)) ''Hi'' (Some ''room1'') noOpts
      (reply 200 ''greeting'') (reply 200 ''Hello'')) = Inr ''Hello'' \<and>
   last (history (chat (ask (Chat_constructor (sampleConf None None)) ''Hi'' (Some ''room1'') noOpts
      (reply 200 ''greeting'') (reply 200 ''Hello''))) ''room1'') =
     \<lparr>sender = Assistant, msg_text = ''Hello''\<rparr>"
proof -
  define c where "c = Chat_constructor (sampleConf None None)"
  have a1: "assembled (ask c ''Hi'' (Some ''room1'') noOpts (reply 200 ''greeting'') (reply 200 ''''))
     = Some ''<|im_start|>system\<newline>AI assistant\<newline><|im_start|>user\<newline>Hi\<newline><|im_end|>\<newline><|im_start|>assistant\<newline>''"
    by (simp add: c_def run_defs)
  have a2: "assembled (ask c ''Hi'' (Some ''room1'') noOpts (reply 200 ''greeting'') (reply 200 ''Hello''))
     = Some ''<|im_start|>system\<newline>AI assistant\<newline><|im_start|>user\<newline>Hi\<newline><|im_end|>\<newline><|im_start|>assistant\<newline>''"
    by (simp add: c_def run_defs)
  have s: "status (reply 200 t) = 200" "choices (reply 200 t) = [Some t]" for t
    by (simp_all add: reply_def)
  have sc: "scopeOf (Some ''room1'') = ''room1''" by (simp add: scopeOf_def)
  have h: "history (snd (setMessage c ''room1'' User ''Hi'')) ''room1'' =
           [\<lparr>sender = User, msg_text = ''Hi''\<rparr>]"
    by (simp add: c_def run_defs)
  from empty_answer_not_recorded [OF a1 s(1) s(2)]
  have r1: "result (ask c ''Hi'' (Some ''room1'') noOpts (reply 200 ''greeting'') (reply 200 [])) = Inr []"
    and c1: "chat (ask c ''Hi'' (Some ''room1'') noOpts (reply 200 ''greeting'') (reply 200 [])) =
             snd (setMessage c ''room1'' User ''Hi'')"
    unfolding sc by simp_all
  have n: "''Hello'' \<noteq> []" "''room1'' \<noteq> []" by simp_all
  from empty_answer_not_recorded [OF a2 s(1) s(2)]
  have "\<forall>a. Some ''Hello'' = Some a \<and> a \<noteq> [] \<longrightarrow>
          result (ask c ''Hi'' (Some ''room1'') noOpts (reply 200 ''greeting'') (reply 200 ''Hello'')) = Inr a \<and>
          chat (ask c ''Hi'' (Some ''room1'') noOpts (reply 200 ''greeting'') (reply 200 ''Hello'')) =
            snd (setMessage (snd (setMessage c ''room1'' User ''Hi'')) ''room1'' Assistant a) \<and>
          (''room1'' \<noteq> [] \<longrightarrow>
             last (history (chat (ask c ''Hi'' (Some ''room1'') noOpts (reply 200 ''greeting'')
                (reply 200 ''Hello''))) ''room1'') = \<lparr>sender = Assistant, msg_text = a\<rparr>)"
    unfolding sc by (rule conjunct1 [OF conjunct2])
  with n
  have r2: "result (ask c ''Hi'' (Some ''room1'') noOpts (reply 200 ''greeting'') (reply 200 ''Hello'')) = Inr ''Hello''"
    and l2: "last (history (chat (ask c ''Hi'' (Some ''room1'') noOpts (reply 200 ''greeting'')
                (reply 200 ''Hello''))) ''room1'') = \<lparr>sender = Assistant, msg_text = ''Hello''\<rparr>"
    by blast+
  show ?thesis unfolding c_def [symmetric] using a1 a2 s r1 r2 l2 h by (simp add: c1)
qed

section \<open>The round trip\<close>

lemma lastN_three:
  assumes "3 \<le> m"
  shows "lastN m (h @ [a, b, c]) = drop (length h + 3 - m) h @ [a, b, c]"
proof -
  have "length (h @ [a, b, c]) - m = length h + 3 - m" by simp
  then have "lastN m (h @ [a, b, c]) = drop (length h + 3 - m) (h @ [a, b, c])"
    by (simp only: lastN_def)
  also have "\<dots> = drop (length h + 3 - m) h @ [a, b, c]"
    using assms by simp
  finally show ?thesis .
qed

lemma ask_frame: "\<exists>k. chat (ask this t dlg opts qres res) = this\<lparr>cache := k\<rparr>"
proof -
  obtain k1 where k1: "snd (setMessage this (scopeOf dlg) User t) = this\<lparr>cache := k1\<rparr>"
    using setMessage_frame by blast
  have "\<exists>k. snd (setMessage (this\<lparr>cache := k1\<rparr>) (scopeOf dlg) Assistant a) = this\<lparr>cache := k\<rparr>" for a
    using setMessage_frame [of "this\<lparr>cache := k1\<rparr>" "scopeOf dlg" Assistant a] by auto
  then show ?thesis using k1
    by (cases "result (ask this t dlg opts qres res)") (auto simp: ask_chat)
qed

lemma ask_role: "role (chat (ask this t dlg opts qres res)) = role this"
  using ask_frame [of this t dlg opts qres res] by auto

text \<open>
  Claim C2, as the code has it. Start from an object whose memory size is at least 3 and
  whose history for scope "room1" is within it. If \<^verbatim>\<open>ask\<close> on "room1" with text "A"
  returned "B", then the prompt that a following \<^verbatim>\<open>ask\<close> on "room1" with text "C"
  assembles is, in this order, the system segment with the role, the turns of what is
  left of the older history (none when the scope was new), the user turn "A", the
  assistant turn "B", the user turn "C" and the empty assistant continuation marker; and
  that prompt is the one of the completion request the second call sends last.
\<close>

theorem round_trip_prompt:
  assumes "3 \<le> memory this"
    and "int (length (history this ''room1'')) \<le> memory this"
    and "result (ask this ''A'' (Some ''room1'') o1 q1 r1) = Inr ''B''"
    and "assembled (ask (chat (ask this ''A'' (Some ''room1'') o1 q1 r1))
                      ''C'' (Some ''room1'') o2 q2 r2) = Some p"
  shows "(\<exists>facts older.
            p = systemSegment (role this) facts @ turns older @ turn User ''A'' @
                turn Assistant ''B'' @ turn User ''C'' @ continuation \<and>
            (cache this ''room1'' = None \<longrightarrow> older = [])) \<and>
         (\<exists>cs req rc. calls (ask (chat (ask this ''A'' (Some ''room1'') o1 q1 r1))
                                ''C'' (Some ''room1'') o2 q2 r2) =
                        cs @ [CreateCompletion req rc] \<and> req_prompt req = p)"
proof -
  define m where "m = nat (memory this)"
  define A where "A = \<lparr>sender = User, msg_text = ''A''\<rparr>"
  define B where "B = \<lparr>sender = Assistant, msg_text = ''B''\<rparr>"
  define C where "C = \<lparr>sender = User, msg_text = ''C''\<rparr>"
  define h where "h = history this ''room1''"
  define older where "older = drop (length h + 3 - m) h"
  define c0 where "c0 = snd (setMessage this ''room1'' User ''A'')"
  define c1 where "c1 = snd (setMessage c0 ''room1'' Assistant ''B'')"
  have sc: "scopeOf (Some ''room1'') = ''room1''" by (simp add: scopeOf_def)
  have ne: "''room1'' \<noteq> []" by simp
  have m3: "3 \<le> m" and m0: "0 \<le> memory this" using assms(1) by (simp_all add: m_def)
  have mem: "memory c0 = memory this" "memory c1 = memory this"
    by (simp_all add: c0_def c1_def setMessage_memory)
  have h0: "history c0 ''room1'' = lastN m (h @ [A])"
    using history_push [OF ne m0 assms(2), of User "''A''"]
    by (simp add: c0_def A_def m_def h_def)
  have b0: "int (length (history c0 ''room1'')) \<le> memory c0"
    using m0 by (simp add: h0 mem length_lastN m_def)
  have "history c1 ''room1'' = lastN m (lastN m (h @ [A]) @ [B])"
    using history_push [OF ne _ b0, of Assistant "''B''"] m0
    by (simp add: h0 mem c1_def B_def m_def)
  then have h1: "history c1 ''room1'' = lastN m (h @ [A, B])"
    using lastN_lastN_append [of m "h @ [A]" "[B]"] by simp
  have b1: "int (length (history c1 ''room1'')) \<le> memory c1"
    using m0 by (simp add: h1 mem length_lastN m_def)
  have "fst (setMessage c1 ''room1'' User ''C'') = lastN m (lastN m (h @ [A, B]) @ [C])"
    using fst_setMessage_lastN [OF ne _ b1, of User "''C''"] m0
    by (simp add: h1 mem C_def m_def)
  then have "fst (setMessage c1 ''room1'' User ''C'') = lastN m (h @ [A, B, C])"
    using lastN_lastN_append [of m "h @ [A, B]" "[C]"] by simp
  moreover have "lastN m (h @ [A, B, C]) = older @ [A, B, C]"
    unfolding older_def using m3 by (rule lastN_three)
  ultimately have ms: "fst (setMessage c1 ''room1'' User ''C'') = older @ [A, B, C]"
    by simp
  have fresh: "older = []" if "cache this ''room1'' = None"
    using that by (simp add: older_def h_def history_def)
  have run1: "chat (ask this ''A'' (Some ''room1'') o1 q1 r1) = c1"
    using assms(3) by (simp add: ask_chat sc c0_def c1_def)
  have r: "role c1 = role this"
    using ask_role [of this "''A''" "Some ''room1''" o1 q1 r1] by (simp add: run1)
  from assms(4) obtain cs where bp: "buildPrompt c1 q2 (older @ [A, B, C]) = (cs, Inr p)"
    by (auto simp: ask_assembled run1 sc ms)
  from buildPrompt_shape [OF bp] obtain facts where
    "p = systemSegment (role c1) facts @ turns (older @ [A, B, C]) @ continuation" by blast
  then have "p = systemSegment (role this) facts @ turns older @ turn User ''A'' @
                 turn Assistant ''B'' @ turn User ''C'' @ continuation"
    by (simp add: r turns_def A_def B_def C_def)
  then have "p = systemSegment (role this) facts @ turns older @ turn User ''A'' @
                 turn Assistant ''B'' @ turn User ''C'' @ continuation \<and>
             (cache this ''room1'' = None \<longrightarrow> older = [])"
    using fresh by simp
  then have f1: "\<exists>facts older.
            p = systemSegment (role this) facts @ turns older @ turn User ''A'' @
                turn Assistant ''B'' @ turn User ''C'' @ continuation \<and>
            (cache this ''room1'' = None \<longrightarrow> older = [])"
    by (intro exI)
  have "buildPrompt c1 q2 (fst (setMessage c1 (scopeOf (Some ''room1'')) User ''C'')) = (cs, Inr p)"
    using bp by (simp add: sc ms)
  from ask_calls [OF this, of o2 r2] obtain req where
    "calls (ask c1 ''C'' (Some ''room1'') o2 q2 r2) = cs @ [CreateCompletion req (clientOpts c1)] \<and>
     req_prompt req = p" by (elim exE)
  then have f2: "\<exists>cs req rc. calls (ask c1 ''C'' (Some ''room1'') o2 q2 r2) =
          cs @ [CreateCompletion req rc] \<and> req_prompt req = p" by (intro exI)
  from f1 f2 show ?thesis unfolding run1 by (rule conjI)
qed

theorem round_trip_prompt_witness:
  "3 \<le> memory (Chat_constructor (sampleConf None None)) \<and>
   int (length (history (Chat_constructor (sampleConf None None)) ''room1''))
     \<le> memory (Chat_constructor (sampleConf None None)) \<and>
   cache (Chat_constructor (sampleConf None None)) ''room1'' = None \<and>
   result (ask (Chat_constructor (sampleConf None None)) ''A'' (Some ''room1'') noOpts
             (reply 200 ''a'') (reply 200 ''B'')) = Inr ''B'' \<and>
   assembled (ask (chat (ask (Chat_constructor (sampleConf None None)) ''A'' (Some ''room1'') noOpts
                           (reply 200 ''a'') (reply 200 ''B'')))
                ''C'' (Some ''room1'') noOpts (reply 200 ''c'') (reply 200 ''D'')) =
     Some (''<|im_start|>system\<newline>AI assistant'' @
           ''\<newline><|im_start|>user\<newline>A\<newline><|im_end|>'' @
           ''\<newline><|im_start|>assistant\<newline>B\<newline><|im_end|>'' @
           ''\<newline><|im_start|>user\<newline>C\<newline><|im_end|>'' @
           ''\<newline><|im_start|>assistant\<newline>'') \<and>
   (\<exists>facts. ''<|im_start|>system\<newline>AI assistant'' @
           ''\<newline><|im_start|>user\<newline>A\<newline><|im_end|>'' @
           ''\<newline><|im_start|>assistant\<newline>B\<newline><|im_end|>'' @
           ''\<newline><|im_start|>user\<newline>C\<newline><|im_end|>'' @
           ''\<newline><|im_start|>assistant\<newline>'' =
      systemSegment (role (Chat_constructor (sampleConf None None))) facts @ turn User ''A'' @
        turn Assistant ''B'' @ turn User ''C'' @ continuation)"
proof -
  define c where "c = Chat_constructor (sampleConf None None)"
  have 0: "cache c ''room1'' = None" by (simp add: c_def sample_fields)
  have 1: "3 \<le> memory c" by (simp add: c_def sample_fields)
  have 2: "int (length (history c ''room1'')) \<le> memory c"
    by (simp add: c_def sample_fields history_def)
  have 3: "result (ask c ''A'' (Some ''room1'') noOpts (reply 200 ''a'') (reply 200 ''B'')) = Inr ''B''"
    by (simp add: c_def run_defs)
  have 4: "assembled (ask (chat (ask c ''A'' (Some ''room1'') noOpts (reply 200 ''a'') (reply 200 ''B'')))
                ''C'' (Some ''room1'') noOpts (reply 200 ''c'') (reply 200 ''D'')) =
     Some (''<|im_start|>system\<newline>AI assistant'' @
           ''\<newline><|im_start|>user\<newline>A\<newline><|im_end|>'' @
           ''\<newline><|im_start|>assistant\<newline>B\<newline><|im_end|>'' @
           ''\<newline><|im_start|>user\<newline>C\<newline><|im_end|>'' @
           ''\<newline><|im_start|>assistant\<newline>'')"
    by (simp add: c_def run_defs)
  define pr where "pr = ''<|im_start|>system\<newline>AI assistant'' @
           ''\<newline><|im_start|>user\<newline>A\<newline><|im_end|>'' @
           ''\<newline><|im_start|>assistant\<newline>B\<newline><|im_end|>'' @
           ''\<newline><|im_start|>user\<newline>C\<newline><|im_end|>'' @
           ''\<newline><|im_start|>assistant\<newline>''"
  define run2 where "run2 = ask (chat (ask c ''A'' (Some ''room1'') noOpts (reply 200 ''a'') (reply 200 ''B'')))
                ''C'' (Some ''room1'') noOpts (reply 200 ''c'') (reply 200 ''D'')"
  have a4: "assembled run2 = Some pr" using 4 by (simp only: pr_def run2_def)
  have "\<exists>facts older.
            pr = systemSegment (role c) facts @ turns older @ turn User ''A'' @
                turn Assistant ''B'' @ turn User ''C'' @ continuation \<and>
            (cache c ''room1'' = None \<longrightarrow> older = [])"
    using round_trip_prompt [OF 1 2 3 a4 [unfolded run2_def]] by (rule conjunct1)
  then obtain facts older where
    e: "pr = systemSegment (role c) facts @ turns older @ turn User ''A'' @
                turn Assistant ''B'' @ turn User ''C'' @ continuation"
    and o: "cache c ''room1'' = None \<longrightarrow> older = []"
    by (elim exE conjE)
  have "older = []" using o 0 by (rule mp)
  then have "pr = systemSegment (role c) facts @ turn User ''A'' @
                turn Assistant ''B'' @ turn User ''C'' @ continuation"
    using e by (simp add: turns_def)
  then have 5: "\<exists>facts. pr = systemSegment (role c) facts @ turn User ''A'' @
                turn Assistant ''B'' @ turn User ''C'' @ continuation"
    by (rule exI)
  show ?thesis
    unfolding c_def [symmetric] pr_def [symmetric] run2_def [symmetric]
    using 0 1 2 3 a4 5 by (intro conjI)
qed

text \<open>
  Claim C2 as stated fails for a memory size below 3. With memory size 2 the first call
  on "room1" returns "B" and leaves the turns "A" and "B"; the append of "C" drops "A",
  and the prompt of the second call holds the assistant turn "B" and the user turn "C"
  only: the user turn "A" is no part of it.
\<close>

theorem round_trip_prompt_counterexample:
  "result (ask (Chat_constructor (sampleConf (Some 2) None)) ''A'' (Some ''room1'') noOpts
             (reply 200 ''a'') (reply 200 ''B'')) = Inr ''B'' \<and>
   assembled (ask (chat (ask (Chat_constructor (sampleConf (Some 2) None)) ''A'' (Some ''room1'')
                           noOpts (reply 200 ''a'') (reply 200 ''B'')))
                ''C'' (Some ''room1'') noOpts (reply 200 ''c'') (reply 200 ''D'')) =
     Some ''<|im_start|>system\<newline>AI assistant\<newline><|im_start|>assistant\<newline>B\<newline><|im_end|>\<newline><|im_start|>user\<newline>C\<newline><|im_end|>\<newline><|im_start|>assistant\<newline>'' \<and>
   \<not> includes_str
       ''<|im_start|>system\<newline>AI assistant\<newline><|im_start|>assistant\<newline>B\<newline><|im_end|>\<newline><|im_start|>user\<newline>C\<newline><|im_end|>\<newline><|im_start|>assistant\<newline>''
       (turn User ''A'')"
  by (simp add: run_defs turn_def)

section \<open>A callback that fails\<close>

lemma ask_enrich_failed:
  assumes "enrich this = Some f" and "0 < memory this"
    and "snd (extractSearchQuery this qres t) = Inr q"
    and "f (if q \<noteq> [] then q else t) = Inl e"
  shows "ask this t dlg opts qres res =
         \<lparr>calls = fst (extractSearchQuery this qres t) @ [Enrich (if q \<noteq> [] then q else t)],
          assembled = None, result = Inl e,
          chat = snd (setMessage this (scopeOf dlg) User t)\<rparr>"
proof -
  define ms where "ms = fst (setMessage this (scopeOf dlg) User t)"
  have ne: "ms \<noteq> []" unfolding ms_def using assms(2) by (rule pushed_nonempty)
  have lst: "msg_text (last ms) = t"
    using pushed_last [of this "scopeOf dlg" User t] ne by (simp add: ms_def)
  have q': "snd (extractSearchQuery this qres (msg_text (last ms))) = Inr q"
    using assms(3) by (simp only: lst)
  have "buildPrompt this qres ms =
        (fst (extractSearchQuery this qres t) @ [Enrich (if q \<noteq> [] then q else t)], Inl e)"
    using buildPrompt_enrich [OF ne q' assms(1)] unfolding lst assms(4) by (simp only: sum.case)
  then show ?thesis unfolding ms_def by (rule ask_failed_prompt)
qed

text \<open>
  Claim C6, as the code has it. The callback is awaited with no handler. When the
  callback is configured, the memory size is positive, query extraction has returned a
  query and the callback fails on the text it is given, \<^verbatim>\<open>ask\<close> fails with the
  callback's own error: no prompt is assembled, the only calls made are the extraction
  request and the callback, no completion request follows, and the object is left as
  the append of the user's message left it.
\<close>

theorem enrich_failure_propagates:
  assumes "enrich this = Some f" and "0 < memory this"
    and "snd (extractSearchQuery this qres t) = Inr q"
    and "f (if q \<noteq> [] then q else t) = Inl e"
  shows "result (ask this t dlg opts qres res) = Inl e \<and>
         assembled (ask this t dlg opts qres res) = None \<and>
         calls (ask this t dlg opts qres res) =
           fst (extractSearchQuery this qres t) @ [Enrich (if q \<noteq> [] then q else t)] \<and>
         chat (ask this t dlg opts qres res) = snd (setMessage this (scopeOf dlg) User t)"
  by (simp add: ask_enrich_failed [OF assms])

lemma unavailable_chat:
  "enrich (Chat_constructor (sampleConf None (Some unavailable))) = Some unavailable"
  "0 < memory (Chat_constructor (sampleConf None (Some unavailable)))"
  "snd (extractSearchQuery (Chat_constructor (sampleConf None (Some unavailable)))
          (reply 200 ''food'') ''What food?'') = Inr ''food''"
  "unavailable q = Inl (Rejected ''knowledge base unavailable'')"
  by (simp_all add: sample_fields extractSearchQuery_def reply_def unavailable_def)

theorem enrich_failure_propagates_witness:
  "enrich (Chat_constructor (sampleConf None (Some unavailable))) = Some unavailable \<and>
   0 < memory (Chat_constructor (sampleConf None (Some unavailable))) \<and>
   snd (extractSearchQuery (Chat_constructor (sampleConf None (Some unavailable)))
          (reply 200 ''food'') ''What food?'') = Inr ''food'' \<and>
   unavailable ''food'' = Inl (Rejected ''knowledge base unavailable'') \<and>
   result (ask (Chat_constructor (sampleConf None (Some unavailable))) ''What food?''
             (Some ''room1'') noOpts (reply 200 ''food'') (reply 200 ''Pasta'')) =
     Inl (Rejected ''knowledge base unavailable'') \<and>
   history (chat (ask (Chat_constructor (sampleConf None (Some unavailable))) ''What food?''
             (Some ''room1'') noOpts (reply 200 ''food'') (reply 200 ''Pasta''))) ''room1'' =
     [\<lparr>sender = User, msg_text = ''What food?''\<rparr>]"
proof -
  define c where "c = Chat_constructor (sampleConf None (Some unavailable))"
  have 1: "enrich c = Some unavailable" and 2: "0 < memory c"
    and 3: "snd (extractSearchQuery c (reply 200 ''food'') ''What food?'') = Inr ''food''"
    by (simp_all add: c_def unavailable_chat)
  have 4: "unavailable (if ''food'' \<noteq> [] then ''food'' else ''What food?'') =
           Inl (Rejected ''knowledge base unavailable'')"
    by (rule unavailable_chat(4))
  have 5: "unavailable ''food'' = Inl (Rejected ''knowledge base unavailable'')"
    by (rule unavailable_chat(4))
  have h: "history (snd (setMessage c (scopeOf (Some ''room1'')) User ''What food?'')) ''room1'' =
     [\<lparr>sender = User, msg_text = ''What food?''\<rparr>]"
    by (simp add: c_def scopeOf_def setMessage_def history_def sample_fields Let_def)
  from enrich_failure_propagates [OF 1 2 3 4, of "Some ''room1''" noOpts "reply 200 ''Pasta''"]
  have "result (ask c ''What food?'' (Some ''room1'') noOpts (reply 200 ''food'') (reply 200 ''Pasta'')) =
          Inl (Rejected ''knowledge base unavailable'')"
    and "chat (ask c ''What food?'' (Some ''room1'') noOpts (reply 200 ''food'') (reply 200 ''Pasta'')) =
          snd (setMessage c (scopeOf (Some ''room1'')) User ''What food?'')"
    by simp_all
  then show ?thesis unfolding c_def [symmetric] using 1 2 3 5 h by simp
qed

text \<open>
  Claim C6 as stated fails: with a callback that always fails and two remote responses
  that are fine, \<^verbatim>\<open>ask\<close> does not return an answer. It throws the callback's error
  after the extraction request and the callback, and assembles no prompt.
\<close>

theorem enrich_failure_counterexample:
  "result (ask (Chat_constructor (sampleConf None (Some unavailable))) ''What food?''
             None noOpts (reply 200 ''food'') (reply 200 ''Pasta'')) =
     Inl (Rejected ''knowledge base unavailable'') \<and>
   assembled (ask (Chat_constructor (sampleConf None (Some unavailable))) ''What food?''
             None noOpts (reply 200 ''food'') (reply 200 ''Pasta'')) = None \<and>
   calls (ask (Chat_constructor (sampleConf None (Some unavailable))) ''What food?''
             None noOpts (reply 200 ''food'') (reply 200 ''Pasta'')) =
     fst (extractSearchQuery (Chat_constructor (sampleConf None (Some unavailable)))
            (reply 200 ''food'') ''What food?'') @ [Enrich ''food'']"
  by (simp add: run_defs unavailable_def)

section \<open>Query extraction and the callback\<close>

lemma extract_no_enrich: "Enrich x \<notin> set (fst (extractSearchQuery this qres t))"
  by (simp add: extractSearchQuery_def)

lemma extract_marker:
  assumes "status res = 200" and "choices res = Some answer # rest"
    and "includes_str answer ''I'm sorry, but'' \<or> includes_str answer ''is not a valid search query''"
  shows "snd (extractSearchQuery this res t) = Inr []"
  using assms by (simp add: extractSearchQuery_def)

lemma buildPrompt_calls_no_enrich:
  assumes "enrich this = None"
  shows "Enrich x \<notin> set (fst (buildPrompt this qres ms))"
proof (cases "ms = []")
  case True
  then show ?thesis by (simp add: buildPrompt_Nil)
next
  case False
  show ?thesis
  proof (cases "snd (extractSearchQuery this qres (msg_text (last ms)))")
    case (Inl e)
    show ?thesis by (simp add: buildPrompt_query_failed [OF False Inl] extract_no_enrich)
  next
    case (Inr q)
    show ?thesis by (simp add: buildPrompt_no_enrich [OF False Inr assms] extract_no_enrich)
  qed
qed

lemma ask_calls_no_enrich:
  assumes "enrich this = None"
  shows "Enrich x \<notin> set (calls (ask this t dlg opts qres res))"
proof -
  obtain cs r where bp:
    "buildPrompt this qres (fst (setMessage this (scopeOf dlg) User t)) = (cs, r)"
    by (cases "buildPrompt this qres (fst (setMessage this (scopeOf dlg) User t))")
  have n: "Enrich x \<notin> set cs"
    using buildPrompt_calls_no_enrich [OF assms, of x qres "fst (setMessage this (scopeOf dlg) User t)"]
    by (simp add: bp)
  show ?thesis
  proof (cases r)
    case (Inl e)
    with bp n show ?thesis by (simp add: ask_failed_prompt)
  next
    case (Inr p)
    with bp n show ?thesis by (simp add: ask_prompt)
  qed
qed

lemma ask_no_enrich_prompt:
  assumes "enrich this = None" and "0 < memory this"
    and "snd (extractSearchQuery this qres t) = Inr q"
  shows "assembled (ask this t dlg opts qres res) =
         Some (systemSegment (role this) [] @
               turns (fst (setMessage this (scopeOf dlg) User t)) @ continuation)"
proof -
  define ms where "ms = fst (setMessage this (scopeOf dlg) User t)"
  have ne: "ms \<noteq> []" unfolding ms_def using assms(2) by (rule pushed_nonempty)
  have lst: "msg_text (last ms) = t"
    using pushed_last [of this "scopeOf dlg" User t] ne by (simp add: ms_def)
  have q': "snd (extractSearchQuery this qres (msg_text (last ms))) = Inr q"
    using assms(3) by (simp only: lst)
  from buildPrompt_no_enrich [OF ne q' assms(1)]
  show ?thesis unfolding ms_def [symmetric] by (simp add: ask_assembled ms_def)
qed

lemma ask_enrich_called:
  assumes "enrich this = Some f" and "0 < memory this"
    and "snd (extractSearchQuery this qres t) = Inr q"
  shows "\<exists>rest. calls (ask this t dlg opts qres res) =
           fst (extractSearchQuery this qres t) @ Enrich (if q = [] then t else q) # rest \<and>
           (\<forall>x. Enrich x \<notin> set rest)"
proof -
  define arg where "arg = (if q \<noteq> [] then q else t)"
  have arg: "(if q = [] then t else q) = arg" by (simp add: arg_def)
  define ms where "ms = fst (setMessage this (scopeOf dlg) User t)"
  have ne: "ms \<noteq> []" unfolding ms_def using assms(2) by (rule pushed_nonempty)
  have lst: "msg_text (last ms) = t"
    using pushed_last [of this "scopeOf dlg" User t] ne by (simp add: ms_def)
  have q': "snd (extractSearchQuery this qres (msg_text (last ms))) = Inr q"
    using assms(3) by (simp only: lst)
  show ?thesis
  proof (cases "f arg")
    case (Inl e)
    then have "f (if q \<noteq> [] then q else t) = Inl e" by (simp only: arg_def)
    from ask_enrich_failed [OF assms this, of dlg opts res]
    have "calls (ask this t dlg opts qres res) =
            fst (extractSearchQuery this qres t) @ Enrich arg # []"
      by (simp add: arg_def)
    then show ?thesis unfolding arg by (intro exI [of _ "[]"]) simp
  next
    case (Inr facts)
    have "buildPrompt this qres ms =
          (fst (extractSearchQuery this qres t) @ [Enrich arg],
           Inr (systemSegment (role this) facts @ turns ms @ continuation))"
      using buildPrompt_enrich [OF ne q' assms(1)] Inr unfolding lst arg_def [symmetric]
      by (simp only: sum.case)
    from ask_calls [OF this [unfolded ms_def], of opts res] obtain req where
      "calls (ask this t dlg opts qres res) =
         (fst (extractSearchQuery this qres t) @ [Enrich arg]) @
         [CreateCompletion req (clientOpts this)]"
      by (elim exE conjE)
    then have "calls (ask this t dlg opts qres res) =
         fst (extractSearchQuery this qres t) @ Enrich arg # [CreateCompletion req (clientOpts this)]"
      by simp
    then show ?thesis unfolding arg
      by (intro exI [of _ "[CreateCompletion req (clientOpts this)]"]) simp
  qed
qed


text \<open>
  Claim C8. When the response to the query-extraction request has status 200 and its
  first choice contains "I'm sorry, but" or "is not a valid search query",
  \<^verbatim>\<open>extractSearchQuery\<close> returns the empty string, and \<^verbatim>\<open>ask\<close> (with a callback
  configured and a positive memory size) then calls the callback once, with the raw
  text. When extraction returns a query that is not empty, the callback is called once,
  with that query. When no callback is configured, no call of \<^verbatim>\<open>ask\<close> calls one, and
  the prompt is assembled with no facts block.
\<close>

theorem query_extraction_and_enrichment:
  "(status qres = 200 \<and> choices qres = Some answer # others \<and>
      (includes_str answer ''I'm sorry, but'' \<or>
       includes_str answer ''is not a valid search query'') \<longrightarrow>
      snd (extractSearchQuery this qres t) = Inr [] \<and>
      (\<forall>f. enrich this = Some f \<and> 0 < memory this \<longrightarrow>
         (\<exists>rest. calls (ask this t dlg opts qres res) =
                    fst (extractSearchQuery this qres t) @ Enrich t # rest \<and>
                  (\<forall>x. Enrich x \<notin> set rest)))) \<and>
   (\<forall>f q. enrich this = Some f \<and> 0 < memory this \<and>
      snd (extractSearchQuery this qres t) = Inr q \<and> q \<noteq> [] \<longrightarrow>
      (\<exists>rest. calls (ask this t dlg opts qres res) =
                 fst (extractSearchQuery this qres t) @ Enrich q # rest \<and>
               (\<forall>x. Enrich x \<notin> set rest))) \<and>
   (\<forall>x. Enrich x \<notin> set (fst (extractSearchQuery this qres t))) \<and>
   (enrich this = None \<longrightarrow>
      (\<forall>x. Enrich x \<notin> set (calls (ask this t dlg opts qres res))) \<and>
      (\<forall>q. 0 < memory this \<and> snd (extractSearchQuery this qres t) = Inr q \<longrightarrow>
         assembled (ask this t dlg opts qres res) =
         Some (systemSegment (role this) [] @
               turns (fst (setMessage this (scopeOf dlg) User t)) @ continuation)))"
proof (intro conjI impI allI)
  assume m: "status qres = 200 \<and> choices qres = Some answer # others \<and>
      (includes_str answer ''I'm sorry, but'' \<or>
       includes_str answer ''is not a valid search query'')"
  then show e: "snd (extractSearchQuery this qres t) = Inr []"
    using extract_marker [of qres answer others this t] by simp
  fix f assume "enrich this = Some f \<and> 0 < memory this"
  then have "enrich this = Some f" "0 < memory this" by simp_all
  from ask_enrich_called [OF this e, of dlg opts res]
  show "\<exists>rest. calls (ask this t dlg opts qres res) =
                    fst (extractSearchQuery this qres t) @ Enrich t # rest \<and>
                  (\<forall>x. Enrich x \<notin> set rest)"
    by simp
next
  fix f q assume "enrich this = Some f \<and> 0 < memory this \<and>
      snd (extractSearchQuery this qres t) = Inr q \<and> q \<noteq> []"
  then have a: "enrich this = Some f" "0 < memory this"
    "snd (extractSearchQuery this qres t) = Inr q" and q: "q \<noteq> []" by simp_all
  from ask_enrich_called [OF a, of dlg opts res] q
  show "\<exists>rest. calls (ask this t dlg opts qres res) =
                 fst (extractSearchQuery this qres t) @ Enrich q # rest \<and>
               (\<forall>x. Enrich x \<notin> set rest)"
    by simp
next
  fix x show "Enrich x \<notin> set (fst (extractSearchQuery this qres t))"
    by (rule extract_no_enrich)
next
  fix x assume "enrich this = None"
  then show "Enrich x \<notin> set (calls (ask this t dlg opts qres res))"
    by (rule ask_calls_no_enrich)
next
  fix q assume "enrich this = None"
    and "0 < memory this \<and> snd (extractSearchQuery this qres t) = Inr q"
  then show "assembled (ask this t dlg opts qres res) =
         Some (systemSegment (role this) [] @
               turns (fst (setMessage this (scopeOf dlg) User t)) @ continuation)"
    using ask_no_enrich_prompt [of this qres t q dlg opts res] by simp
qed


theorem query_extraction_and_enrichment_witness:
  "snd (extractSearchQuery (Chat_constructor (sampleConf None (Some (getFacts (Inr ''Marseoni facts'')))))
          (reply 200 ''I'm sorry, but I cannot help with that'') ''What FOOD?'') = Inr [] \<and>
   Enrich ''What FOOD?'' \<in> set (calls (ask
      (Chat_constructor (sampleConf None (Some (getFacts (Inr ''Marseoni facts'')))))
      ''What FOOD?'' None noOpts (reply 200 ''I'm sorry, but I cannot help with that'')
      (reply 200 ''Pasta''))) \<and>
   snd (extractSearchQuery (Chat_constructor (sampleConf None (Some (getFacts (Inr ''Marseoni facts'')))))
          (reply 200 ''food'') ''What FOOD?'') = Inr ''food'' \<and>
   Enrich ''food'' \<in> set (calls (ask
      (Chat_constructor (sampleConf None (Some (getFacts (Inr ''Marseoni facts'')))))
      ''What FOOD?'' None noOpts (reply 200 ''food'') (reply 200 ''Pasta''))) \<and>
   enrich (Chat_constructor (sampleConf None None)) = None \<and>
   Enrich ''food'' \<notin> set (calls (ask (Chat_constructor (sampleConf None None))
      ''What FOOD?'' None noOpts (reply 200 ''food'') (reply 200 ''Pasta'')))"
proof -
  define c where "c = Chat_constructor (sampleConf None (Some (getFacts (Inr ''Marseoni facts''))))"
  define c' where "c' = Chat_constructor (sampleConf None None)"
  define sorry_reply where "sorry_reply = reply 200 ''I'm sorry, but I cannot help with that''"
  define run1 where "run1 = ask c ''What FOOD?'' None noOpts sorry_reply (reply 200 ''Pasta'')"
  define run2 where "run2 = ask c ''What FOOD?'' None noOpts (reply 200 ''food'') (reply 200 ''Pasta'')"
  define run3 where "run3 = ask c' ''What FOOD?'' None noOpts (reply 200 ''food'') (reply 200 ''Pasta'')"
  have en: "enrich c = Some (getFacts (Inr ''Marseoni facts''))" and mem: "0 < memory c"
    and en': "enrich c' = None"
    by (simp_all add: c_def c'_def sample_fields)
  have p1: "status sorry_reply = 200 \<and>
      choices sorry_reply = Some ''I'm sorry, but I cannot help with that'' # [] \<and>
      (includes_str ''I'm sorry, but I cannot help with that'' ''I'm sorry, but'' \<or>
       includes_str ''I'm sorry, but I cannot help with that'' ''is not a valid search query'')"
    by (simp add: sorry_reply_def reply_def)
  have q2: "snd (extractSearchQuery c (reply 200 ''food'') ''What FOOD?'') = Inr ''food''"
    by (simp add: extractSearchQuery_def reply_def)
  have n2: "''food'' \<noteq> []" by simp
  note T1 = query_extraction_and_enrichment
    [of sorry_reply "''I'm sorry, but I cannot help with that''" "[]" c "''What FOOD?''" None noOpts
        "reply 200 ''Pasta''"]
  note T2 = query_extraction_and_enrichment
    [of "reply 200 ''food''" "''food''" "[]" c "''What FOOD?''" None noOpts "reply 200 ''Pasta''"]
  note T3 = query_extraction_and_enrichment
    [of "reply 200 ''food''" "''food''" "[]" c' "''What FOOD?''" None noOpts "reply 200 ''Pasta''"]
  have e1: "snd (extractSearchQuery c sorry_reply ''What FOOD?'') = Inr []"
    using T1 p1 by blast
  have "\<exists>rest. calls run1 = fst (extractSearchQuery c sorry_reply ''What FOOD?'') @
                  Enrich ''What FOOD?'' # rest"
    unfolding run1_def using T1 p1 en mem by blast
  then have m1: "Enrich ''What FOOD?'' \<in> set (calls run1)" by auto
  have "\<exists>rest. calls run2 = fst (extractSearchQuery c (reply 200 ''food'') ''What FOOD?'') @
                  Enrich ''food'' # rest"
    unfolding run2_def using T2 q2 n2 en mem by blast
  then have m2: "Enrich ''food'' \<in> set (calls run2)" by auto
  have m3: "Enrich ''food'' \<notin> set (calls run3)"
    unfolding run3_def using T3 en' by blast
  show ?thesis
    unfolding c_def [symmetric] c'_def [symmetric] sorry_reply_def [symmetric]
      run1_def [symmetric] run2_def [symmetric] run3_def [symmetric]
    using e1 m1 q2 m2 en' m3 by (intro conjI)
qed

end
